theory Spec2Isabelle
  imports Main "HOL-Library.Char_ord" "HOL-Library.List_Lexorder" "HOL-Library.AList"
    "HOL-Library.Multiset"
begin

section \<open>Invoice queries of the GraphQL v1 resolver layer\<close>

text \<open>
  A shallow embedding of the invoice resolvers of \<^verbatim>\<open>src/server/graphql/v1/queries.js\<close>
  (\<^verbatim>\<open>allInvoices\<close>, \<^verbatim>\<open>Invoice\<close>, \<^verbatim>\<open>TransactionInvoice\<close>) and of the two helpers
  \<^verbatim>\<open>validateDate\<close> and \<^verbatim>\<open>parseInvoiceSlug\<close>.

  Strings are lists of code units; \<^typ>\<open>char\<close> has eight bits, so the strings of the model
  are the JavaScript strings whose code units are below 256.
\<close>

subsection \<open>JavaScript numbers, conversions and comparison\<close>

text \<open>
  The helpers compare strings with numbers (\<^verbatim>\<open>year < 2015\<close> where \<^verbatim>\<open>year\<close> is a
  substring), so the comparison of the language is part of the model. A finite number
  \<^verbatim>\<open>Fin m e\<close> stands for the decimal value \<open>m * 10 ^ e\<close>. The value of a numeric string is
  kept exactly: the rounding to a binary double and the overflow to an infinity are left
  out, which changes no comparison and no printed form for a literal of at most fifteen
  significant digits inside the range of a double. A value \<^verbatim>\<open>jsval\<close> is a field of a date
  object: a string, or an integer number.
\<close>

datatype jsnum = NaN | PosInf | NegInf | Fin int int

datatype jsval = JStr string | JInt int

definition isWhiteSpace :: "char \<Rightarrow> bool" where
  "isWhiteSpace c =
     (c \<in> set [CHR 0x09, CHR 0x0A, CHR 0x0B, CHR 0x0C, CHR 0x0D, CHR 0x20, CHR 0xA0])"

definition trim :: "string \<Rightarrow> string" where
  "trim s = rev (dropWhile isWhiteSpace (rev (dropWhile isWhiteSpace s)))"

definition isDigit :: "char \<Rightarrow> bool" where
  "isDigit c = (c \<in> set ''0123456789'')"

definition hexDigit :: "char \<Rightarrow> nat option" where
  "hexDigit c = map_of (zip ''0123456789abcdef'' [0 ..< 16] @ zip ''ABCDEF'' [10 ..< 16]) c"

fun radixValue :: "nat \<Rightarrow> nat \<Rightarrow> string \<Rightarrow> nat option" where
  "radixValue r acc [] = Some acc"
| "radixValue r acc (c # cs) =
     (case hexDigit c of
        None \<Rightarrow> None
      | Some d \<Rightarrow> if d < r then radixValue r (acc * r + d) cs else None)"

definition digitsValue :: "string \<Rightarrow> nat" where
  "digitsValue ds = foldl (\<lambda>acc c. acc * 10 + (of_char c - 48)) 0 ds"

definition exponentPart :: "string \<Rightarrow> int option" where
  "exponentPart s =
     (case s of
        [] \<Rightarrow> Some 0
      | c # r \<Rightarrow>
          if c = CHR ''e'' \<or> c = CHR ''E'' then
            (let (neg, ds) =
                   (case r of
                      [] \<Rightarrow> (False, [])
                    | d # r' \<Rightarrow> if d = CHR ''-'' then (True, r')
                                else if d = CHR ''+'' then (False, r') else (False, r))
             in if ds \<noteq> [] \<and> list_all isDigit ds
                then Some (if neg then - int (digitsValue ds) else int (digitsValue ds))
                else None)
          else None)"

definition unsignedDecimal :: "string \<Rightarrow> jsnum" where
  "unsignedDecimal s =
     (if s = ''Infinity'' then PosInf
      else
        let ip = takeWhile isDigit s;
            r1 = dropWhile isDigit s;
            (fp, r2) = (case r1 of
                          [] \<Rightarrow> ([], [])
                        | c # r \<Rightarrow> if c = CHR ''.''
                                   then (takeWhile isDigit r, dropWhile isDigit r)
                                   else ([], r1))
        in if ip = [] \<and> fp = [] then NaN
           else (case exponentPart r2 of
                   None \<Rightarrow> NaN
                 | Some e \<Rightarrow> Fin (int (digitsValue (ip @ fp))) (e - int (length fp))))"

definition negate :: "jsnum \<Rightarrow> jsnum" where
  "negate n =
     (case n of NaN \<Rightarrow> NaN | PosInf \<Rightarrow> NegInf | NegInf \<Rightarrow> PosInf | Fin m e \<Rightarrow> Fin (- m) e)"

definition nonDecimal :: "nat \<Rightarrow> string \<Rightarrow> jsnum" where
  "nonDecimal r ds =
     (if ds = [] then NaN
      else case radixValue r 0 ds of None \<Rightarrow> NaN | Some v \<Rightarrow> Fin (int v) 0)"

text \<open>
  \<^verbatim>\<open>StringToNumber\<close> of the language: white space is trimmed, the empty string is 0, then
  a hexadecimal, octal or binary integer without sign, or a signed decimal literal
  (\<^verbatim>\<open>Infinity\<close>, digits with an optional fraction and exponent); anything else is NaN.
\<close>

definition StringToNumber :: "string \<Rightarrow> jsnum" where
  "StringToNumber str =
     (case trim str of
        [] \<Rightarrow> Fin 0 0
      | c # r \<Rightarrow>
          if c = CHR ''0'' \<and> r \<noteq> [] \<and> hd r \<in> set ''xX'' then nonDecimal 16 (tl r)
          else if c = CHR ''0'' \<and> r \<noteq> [] \<and> hd r \<in> set ''oO'' then nonDecimal 8 (tl r)
          else if c = CHR ''0'' \<and> r \<noteq> [] \<and> hd r \<in> set ''bB'' then nonDecimal 2 (tl r)
          else if c = CHR ''-'' then negate (unsignedDecimal r)
          else if c = CHR ''+'' then unsignedDecimal r
          else unsignedDecimal (c # r))"

fun ToNumber :: "jsval \<Rightarrow> jsnum" where
  "ToNumber (JStr s) = StringToNumber s"
| "ToNumber (JInt i) = Fin i 0"

text \<open>The numeric \<^verbatim>\<open><\<close>: false as soon as one side is NaN.\<close>

fun num_lt :: "jsnum \<Rightarrow> jsnum \<Rightarrow> bool" where
  "num_lt NaN y = False"
| "num_lt x NaN = False"
| "num_lt PosInf y = False"
| "num_lt NegInf NegInf = False"
| "num_lt NegInf y = True"
| "num_lt (Fin m e) PosInf = True"
| "num_lt (Fin m e) NegInf = False"
| "num_lt (Fin m1 e1) (Fin m2 e2) =
     (m1 * 10 ^ nat (e1 - min e1 e2) < m2 * 10 ^ nat (e2 - min e1 e2))"

text \<open>
  The relational operator \<^verbatim>\<open>a < b\<close>: two strings are compared by code units, any other
  pair after conversion to numbers. \<^verbatim>\<open>a > b\<close> is \<open>js_lt b a\<close>.
\<close>

fun js_lt :: "jsval \<Rightarrow> jsval \<Rightarrow> bool" where
  "js_lt (JStr a) (JStr b) = (a < b)"
| "js_lt a b = num_lt (ToNumber a) (ToNumber b)"

fun num_add :: "jsnum \<Rightarrow> jsnum \<Rightarrow> jsnum" where
  "num_add NaN y = NaN"
| "num_add x NaN = NaN"
| "num_add PosInf NegInf = NaN"
| "num_add NegInf PosInf = NaN"
| "num_add PosInf y = PosInf"
| "num_add NegInf y = NegInf"
| "num_add x PosInf = PosInf"
| "num_add x NegInf = NegInf"
| "num_add (Fin m1 e1) (Fin m2 e2) =
     Fin (m1 * 10 ^ nat (e1 - min e1 e2) + m2 * 10 ^ nat (e2 - min e1 e2)) (min e1 e2)"

fun digitsOf :: "nat \<Rightarrow> string" where
  "digitsOf n =
     (if n < 10 then [''0123456789'' ! n]
      else digitsOf (n div 10) @ [''0123456789'' ! (n mod 10)])"

declare digitsOf.simps [simp del]

text \<open>
  \<^verbatim>\<open>Number::toString\<close> in radix 10 for a positive value \<open>m * 10 ^ e\<close>: with \<open>k\<close> significant
  digits and the decimal point after \<open>n\<close> of them, plain digits when \<open>k \<le> n \<le> 21\<close>, a
  fraction when \<open>-6 < n \<le> 21\<close>, the exponent form otherwise.
\<close>

definition positiveToString :: "nat \<Rightarrow> int \<Rightarrow> string" where
  "positiveToString m e =
     (let ds0 = digitsOf m;
          z = length (takeWhile (\<lambda>c. c = CHR ''0'') (rev ds0));
          ds = take (length ds0 - z) ds0;
          k = int (length ds);
          n = k + int z + e;
          ex = (if n - 1 < 0 then ''-'' else ''+'') @ digitsOf (nat \<bar>n - 1\<bar>)
      in if k \<le> n \<and> n \<le> 21 then ds @ replicate (nat (n - k)) (CHR ''0'')
         else if 0 < n \<and> n \<le> 21 then take (nat n) ds @ ''.'' @ drop (nat n) ds
         else if - 6 < n \<and> n \<le> 0 then ''0.'' @ replicate (nat (- n)) (CHR ''0'') @ ds
         else if k = 1 then ds @ ''e'' @ ex
         else take 1 ds @ ''.'' @ drop 1 ds @ ''e'' @ ex)"

fun NumberToString :: "jsnum \<Rightarrow> string" where
  "NumberToString NaN = ''NaN''"
| "NumberToString PosInf = ''Infinity''"
| "NumberToString NegInf = ''-Infinity''"
| "NumberToString (Fin m e) =
     (if m = 0 then ''0''
      else if m < 0 then ''-'' @ positiveToString (nat (- m)) e
      else positiveToString (nat m) e)"

declare NumberToString.simps [simp del]

fun ToString :: "jsval \<Rightarrow> string" where
  "ToString (JStr s) = s"
| "ToString (JInt i) = NumberToString (Fin i 0)"

subsection \<open>String methods\<close>

text \<open>
  \<^verbatim>\<open>substr(start, length)\<close> and \<^verbatim>\<open>substr(start)\<close> for a start that is not negative;
  \<^verbatim>\<open>substring(a, b)\<close> clamps both indices to the string and swaps them when \<open>a > b\<close>;
  \<^verbatim>\<open>lastIndexOf\<close> of a one-character pattern is -1 when the character is absent.
\<close>

definition substr :: "string \<Rightarrow> nat \<Rightarrow> nat \<Rightarrow> string" where
  "substr s start len = take len (drop start s)"

definition substr_from :: "string \<Rightarrow> nat \<Rightarrow> string" where
  "substr_from s start = drop start s"

definition substring :: "string \<Rightarrow> int \<Rightarrow> int \<Rightarrow> string" where
  "substring s a b =
     (let clamp = (\<lambda>i. min (max i 0) (int (length s)));
          lo = nat (min (clamp a) (clamp b));
          hi = nat (max (clamp a) (clamp b))
      in take (hi - lo) (drop lo s))"

definition lastIndexOf :: "string \<Rightarrow> char \<Rightarrow> int" where
  "lastIndexOf s c =
     (if c \<in> set s
      then int (length s) - 1 - int (length (takeWhile (\<lambda>x. x \<noteq> c) (rev s)))
      else - 1)"

text \<open>\<^verbatim>\<open>includes\<close>: the pattern occurs in the string, at some position.\<close>

fun includes_str :: "string \<Rightarrow> string \<Rightarrow> bool" where
  "includes_str [] pat = (pat = [])"
| "includes_str (c # cs) pat = (take (length pat) (c # cs) = pat \<or> includes_str cs pat)"

subsection \<open>Errors\<close>

text \<open>
  The error classes of \<^verbatim>\<open>lib/errors\<close> with the arguments the resolvers pass:
  \<^verbatim>\<open>ValidationFailed(type, fields, message)\<close>, where \<^verbatim>\<open>parseInvoiceSlug\<close> passes one
  argument only. \<^verbatim>\<open>TypeError\<close> is the error of the language for a property read on
  \<^verbatim>\<open>null\<close> or \<^verbatim>\<open>undefined\<close>, \<^verbatim>\<open>DatabaseError\<close> the rejection of a query by the store.
\<close>

datatype error =
    NotFound string
  | Unauthorized string
  | ValidationFailed string "string list option" "string option"
  | TypeError
  | DatabaseError

subsection \<open>validateDate and parseInvoiceSlug\<close>

record date_obj =
  year :: jsval
  month :: jsval

record invoice_input =
  dateFrom :: date_obj
  dateTo :: date_obj
  collectiveSlug :: string
  fromCollectiveSlug :: string

definition validateDate :: "date_obj \<Rightarrow> error + unit" where
  "validateDate dateObj =
     (if js_lt (date_obj.year dateObj) (JInt 2015)
         \<or> (js_lt (date_obj.month dateObj) (JInt 1) \<or> js_lt (JInt 12) (date_obj.month dateObj))
      then Inl (ValidationFailed ''validation_failed'' (Some [''InvoiceDateType''])
             (Some ''Invalid date object. Must have a valid month, where 1 == January, and be after 2014''))
      else Inr ())"

definition parseInvoiceSlug :: "string \<Rightarrow> error + invoice_input" where
  "parseInvoiceSlug invoiceSlug =
     (let year = substr invoiceSlug 0 4;
          month = substr invoiceSlug 4 2;
          collectiveSlug = substring invoiceSlug 7 (lastIndexOf invoiceSlug (CHR ''.''));
          fromCollectiveSlug =
            substr_from invoiceSlug (nat (lastIndexOf invoiceSlug (CHR ''.'') + 1))
      in if collectiveSlug = [] \<or> js_lt (JStr year) (JInt 2015)
            \<or> (js_lt (JStr month) (JInt 1) \<or> js_lt (JInt 12) (JStr month))
         then Inl (ValidationFailed
                ''Invalid invoiceSlug format. Should be :year:2digitMonth.:hostSlug.:fromCollectiveSlug''
                None None)
         else Inr \<lparr> dateFrom = \<lparr> year = JStr year, month = JStr month \<rparr>,
                    dateTo = \<lparr> year = JStr year,
                               month = JStr (NumberToString
                                 (num_add (StringToNumber month) (Fin 1 0))) \<rparr>,
                    collectiveSlug = collectiveSlug,
                    fromCollectiveSlug = fromCollectiveSlug \<rparr>)"

subsection \<open>The store and the request\<close>

text \<open>
  The rows the resolvers read, with the fields they read. \<^verbatim>\<open>createdAt\<close> is the time
  value of the timestamp (milliseconds since the epoch); \<^verbatim>\<open>host\<close> is the property
  \<^verbatim>\<open>TransactionInvoice\<close> attaches to the row it loaded, unset in the store.
  Amounts are integers of the store (minor currency units) and are added exactly.
\<close>

datatype transaction_type = CREDIT | DEBIT

record collective =
  id' :: nat
  slug :: string
  currency :: string
  settings_invoiceTitle :: "string option"

record transaction =
  id' :: nat
  uuid :: string
  createdAt :: int
  type' :: transaction_type
  amount :: int
  amountInHostCurrency :: int
  netAmountInCollectiveCurrency :: int
  hostCurrency :: string
  HostCollectiveId :: nat
  FromCollectiveId :: nat
  UsingVirtualCardFromCollectiveId :: "nat option"
  host :: "collective option"

text \<open>
  The caller: \<^verbatim>\<open>req.remoteUser\<close> is absent for an unauthenticated request; its method
  \<^verbatim>\<open>isAdmin(CollectiveId)\<close> belongs to the user model and is a parameter here.
\<close>

record remote_user =
  isAdmin :: "nat \<Rightarrow> bool"

record request =
  remoteUser :: "remote_user option"

text \<open>
  What the resolvers take from their surroundings: the two tables, the local calendar of
  the runtime (\<^verbatim>\<open>getFullYear\<close>, \<^verbatim>\<open>getMonth\<close>, \<^verbatim>\<open>getDate\<close> of a time value), the
  constructor \<^verbatim>\<open>new Date(string)\<close> (no time value for an invalid date), the method
  \<^verbatim>\<open>paymentMethodProviderCollectiveId\<close> of the transaction model, and the order in which
  the host lookups started by \<^verbatim>\<open>Promise.map\<close> complete.
\<close>

record world =
  collectives :: "collective list"
  transactions :: "transaction list"
  getFullYear :: "int \<Rightarrow> int"
  getMonth :: "int \<Rightarrow> nat"
  getDate :: "int \<Rightarrow> nat"
  dateParse :: "string \<Rightarrow> int option"
  paymentMethodProviderCollectiveId :: "transaction \<Rightarrow> nat"
  completionOrder :: "transaction list \<Rightarrow> transaction list"

definition Collective_findOne :: "world \<Rightarrow> string \<Rightarrow> collective option" where
  "Collective_findOne w s = find (\<lambda>c. collective.slug c = s) (collectives w)"

text \<open>
  Modelled from the spec: \<^verbatim>\<open>models.Collective.findBySlug\<close> is not part of the sources;
  the spec gives \<^verbatim>\<open>findBySlug(slug) -> Collective | null\<close>.
\<close>

definition Collective_findBySlug :: "world \<Rightarrow> string \<Rightarrow> collective option" where
  "Collective_findBySlug w s = find (\<lambda>c. collective.slug c = s) (collectives w)"

definition Collective_findByPk :: "world \<Rightarrow> nat \<Rightarrow> collective option" where
  "Collective_findByPk w k = find (\<lambda>c. collective.id' c = k) (collectives w)"

text \<open>
  Modelled from the spec: the association getter \<^verbatim>\<open>transaction.getHostCollective()\<close> is
  not part of the sources; the spec says it resolves the host of the transaction.
\<close>

definition getHostCollective :: "world \<Rightarrow> transaction \<Rightarrow> collective option" where
  "getHostCollective w t = Collective_findByPk w (transaction.HostCollectiveId t)"

definition Transaction_findAll :: "world \<Rightarrow> (transaction \<Rightarrow> bool) \<Rightarrow> transaction list" where
  "Transaction_findAll w wh = filter wh (transactions w)"

definition Transaction_findOne :: "world \<Rightarrow> (transaction \<Rightarrow> bool) \<Rightarrow> transaction option" where
  "Transaction_findOne w wh = find wh (transactions w)"

text \<open>The queries a resolver sends to the transaction table, in the order it sends them.\<close>

datatype query = TransactionFindAll | TransactionFindOne

text \<open>
  The condition both invoice queries put on the payer: the payer's own credits made
  without a virtual card, or credits made with a virtual card the payer issued.
\<close>

definition fromOrVirtualCard :: "nat \<Rightarrow> transaction \<Rightarrow> bool" where
  "fromOrVirtualCard fromId t =
     ((FromCollectiveId t = fromId \<and> UsingVirtualCardFromCollectiveId t = None)
      \<or> UsingVirtualCardFromCollectiveId t = Some fromId)"

definition notAdmin :: "request \<Rightarrow> nat \<Rightarrow> bool" where
  "notAdmin req collectiveId =
     (case remoteUser req of None \<Rightarrow> True | Some u \<Rightarrow> \<not> isAdmin u collectiveId)"

definition invoiceTitle :: "collective option \<Rightarrow> string" where
  "invoiceTitle h =
     (case h of
        None \<Rightarrow> ''Donation Receipt''
      | Some c \<Rightarrow>
          (case settings_invoiceTitle c of
             None \<Rightarrow> ''Donation Receipt''
           | Some t \<Rightarrow> if t = [] then ''Donation Receipt'' else t))"

subsection \<open>allInvoices\<close>

record invoice_summary =
  HostCollectiveId :: nat
  FromCollectiveId :: nat
  slug :: string
  year :: int
  month :: nat
  totalAmount :: int
  currency :: string

definition month2digit :: "nat \<Rightarrow> string" where
  "month2digit m =
     (if m < 10 then ''0'' @ NumberToString (Fin (int m) 0)
      else NumberToString (Fin (int m) 0))"

definition slugOf :: "int \<Rightarrow> nat \<Rightarrow> string \<Rightarrow> string \<Rightarrow> string" where
  "slugOf y m hostSlug fromSlug =
     NumberToString (Fin y 0) @ month2digit m @ ''.'' @ hostSlug @ ''.'' @ fromSlug"

text \<open>
  The body of the mapper for one transaction, on the two objects it updates:
  \<^verbatim>\<open>hostsById\<close> and \<^verbatim>\<open>invoicesByKey\<close>. The second is an object with string keys that are
  no array indices (each holds a dot), so its keys are listed in the order of their first
  assignment: an association list updated in place. \<^verbatim>\<open>keyOf\<close> is the slug computed for a
  transaction with host \<open>h\<close>, \<^verbatim>\<open>addInvoice\<close> the part of the body after the host is known.
  A host that is not found leaves \<^verbatim>\<open>null\<close> in \<^verbatim>\<open>hostsById\<close> and the read of its
  \<^verbatim>\<open>slug\<close> throws.
\<close>

type_synonym loop_state = "(nat \<rightharpoonup> collective) \<times> (string \<times> invoice_summary) list"

definition keyOf :: "world \<Rightarrow> collective \<Rightarrow> collective \<Rightarrow> transaction \<Rightarrow> string" where
  "keyOf w fromCollective h transaction =
     slugOf (getFullYear w (createdAt transaction)) (getMonth w (createdAt transaction) + 1)
       (collective.slug h) (collective.slug fromCollective)"

definition addInvoice :: "world \<Rightarrow> collective \<Rightarrow> collective \<Rightarrow> (string \<times> invoice_summary) list \<Rightarrow> transaction \<Rightarrow> (string \<times> invoice_summary) list" where
  "addInvoice w fromCollective h invoicesByKey transaction =
     (let createdAt = transaction.createdAt transaction;
          year = getFullYear w createdAt;
          month = getMonth w createdAt + 1;
          slug = keyOf w fromCollective h transaction;
          totalAmount =
            (case map_of invoicesByKey slug of
               Some i \<Rightarrow> invoice_summary.totalAmount i + amountInHostCurrency transaction
             | None \<Rightarrow> amountInHostCurrency transaction)
      in AList.update slug
           \<lparr> HostCollectiveId = transaction.HostCollectiveId transaction,
             FromCollectiveId = collective.id' fromCollective,
             slug = slug,
             year = year,
             month = month,
             totalAmount = totalAmount,
             currency = hostCurrency transaction \<rparr>
           invoicesByKey)"

definition mapper :: "world \<Rightarrow> collective \<Rightarrow> loop_state \<Rightarrow> transaction \<Rightarrow> error + loop_state" where
  "mapper w fromCollective st transaction =
     (let hostsById = fst st;
          invoicesByKey = snd st;
          HostCollectiveId = transaction.HostCollectiveId transaction;
          found = (case hostsById HostCollectiveId of
                     Some h \<Rightarrow> Some h
                   | None \<Rightarrow> Collective_findByPk w HostCollectiveId)
      in case found of
           None \<Rightarrow> Inl TypeError
         | Some h \<Rightarrow>
             Inr (hostsById(HostCollectiveId \<mapsto> h),
                  addInvoice w fromCollective h invoicesByKey transaction))"

text \<open>
  \<^verbatim>\<open>Promise.map\<close> starts the mapper on every transaction; each body waits once, for its
  host, and then runs to its end without a further wait. A run is therefore a pass over
  the transactions in the order in which the lookups complete, and it is rejected with
  the first error thrown.
\<close>

fun mapSeries :: "('s \<Rightarrow> 'a \<Rightarrow> error + 's) \<Rightarrow> 's \<Rightarrow> 'a list \<Rightarrow> error + 's" where
  "mapSeries f st [] = Inr st"
| "mapSeries f st (x # xs) =
     (case f st x of Inl e \<Rightarrow> Inl e | Inr st' \<Rightarrow> mapSeries f st' xs)"

text \<open>
  \<^verbatim>\<open>Array.prototype.sort\<close> with a comparator, as a stable insertion sort: \<open>a\<close> is put before
  \<open>b\<close> when the comparator is negative on \<open>(a, b)\<close>.
\<close>

fun insertBy :: "('a \<Rightarrow> 'a \<Rightarrow> int) \<Rightarrow> 'a \<Rightarrow> 'a list \<Rightarrow> 'a list" where
  "insertBy cmp x [] = [x]"
| "insertBy cmp x (y # ys) = (if cmp x y \<le> 0 then x # y # ys else y # insertBy cmp x ys)"

definition sortBy :: "('a \<Rightarrow> 'a \<Rightarrow> int) \<Rightarrow> 'a list \<Rightarrow> 'a list" where
  "sortBy cmp xs = foldr (insertBy cmp) xs []"

definition compareInvoices :: "invoice_summary \<Rightarrow> invoice_summary \<Rightarrow> int" where
  "compareInvoices a b = (if invoice_summary.slug b < invoice_summary.slug a then - 1 else 1)"

definition allInvoices :: "world \<Rightarrow> string \<Rightarrow> request \<Rightarrow> query list \<times> (error + invoice_summary list)" where
  "allInvoices w args_fromCollectiveSlug req =
     (case Collective_findOne w args_fromCollectiveSlug of
        None \<Rightarrow> ([], Inl (NotFound ''User or organization not found''))
      | Some fromCollective \<Rightarrow>
          if notAdmin req (collective.id' fromCollective)
          then ([], Inl (Unauthorized ''You don't have permission to access invoices for this user''))
          else
            let transactions =
                  Transaction_findAll w
                    (\<lambda>t. type' t = CREDIT
                         \<and> fromOrVirtualCard (collective.id' fromCollective) t)
            in ([TransactionFindAll],
                case mapSeries (mapper w fromCollective) (Map.empty, [])
                       (completionOrder w transactions) of
                  Inl e \<Rightarrow> Inl e
                | Inr st \<Rightarrow> Inr (sortBy compareInvoices (map snd (snd st)))))"

subsection \<open>Invoice\<close>

record invoice_args =
  invoiceInputType :: "invoice_input option"
  invoiceSlug :: "string option"

record invoice_range =
  title :: string
  HostCollectiveId :: nat
  FromCollectiveId :: nat
  slug :: "string option"
  yearFrom :: jsval
  monthFrom :: jsval
  yearTo :: jsval
  monthTo :: jsval
  totalAmount :: int
  currency :: string
  transactions :: "transaction list"

text \<open>
  The arguments: a slug that is present and not empty is parsed; otherwise the input
  object is taken, and destructuring an absent one throws.
\<close>

definition invoiceRequest :: "invoice_args \<Rightarrow> error + invoice_input" where
  "invoiceRequest args =
     (case invoiceSlug args of
        Some s \<Rightarrow>
          if s \<noteq> [] then parseInvoiceSlug s
          else (case invoiceInputType args of None \<Rightarrow> Inl TypeError | Some i \<Rightarrow> Inr i)
      | None \<Rightarrow> (case invoiceInputType args of None \<Rightarrow> Inl TypeError | Some i \<Rightarrow> Inr i))"

definition dateString :: "jsval \<Rightarrow> jsval \<Rightarrow> string" where
  "dateString y m = ToString y @ ''-'' @ ToString m @ ''-01''"

text \<open>\<^verbatim>\<open>endsAt < startsAt\<close> on two dates compares their time values; an invalid date is NaN.\<close>

definition date_lt :: "int option \<Rightarrow> int option \<Rightarrow> bool" where
  "date_lt a b = (case (a, b) of (Some x, Some y) \<Rightarrow> x < y | _ \<Rightarrow> False)"

text \<open>
  The reduction over the rows: the running total, and the currency of the invoice, which
  every row overwrites.
\<close>

definition reduceInvoice :: "transaction list \<Rightarrow> string option \<times> int" where
  "reduceInvoice ts =
     foldl (\<lambda>acc t. (Some (hostCurrency t), snd acc + amountInHostCurrency t)) (None, 0) ts"

text \<open>
  The fetch of the date range. The store is not asked to compare a timestamp with an
  invalid date: such a query is rejected.
\<close>

definition fetchRange :: "world \<Rightarrow> nat \<Rightarrow> nat \<Rightarrow> int option \<Rightarrow> int option \<Rightarrow> error + transaction list" where
  "fetchRange w fromId hostId startsAt endsAt =
     (case (startsAt, endsAt) of
        (Some s, Some e) \<Rightarrow>
          Inr (Transaction_findAll w
            (\<lambda>t. fromOrVirtualCard fromId t
                 \<and> transaction.HostCollectiveId t = hostId
                 \<and> s \<le> createdAt t \<and> createdAt t < e
                 \<and> type' t = CREDIT))
      | _ \<Rightarrow> Inl DatabaseError)"

definition buildInvoice :: "invoice_args \<Rightarrow> invoice_input \<Rightarrow> collective \<Rightarrow> collective \<Rightarrow> transaction list \<Rightarrow> invoice_range" where
  "buildInvoice args i fromCollective hostCollective ts =
     (let reduced = reduceInvoice ts
      in \<lparr> title = invoiceTitle (Some hostCollective),
           HostCollectiveId = collective.id' hostCollective,
           FromCollectiveId = collective.id' fromCollective,
           slug = invoiceSlug args,
           yearFrom = date_obj.year (dateFrom i),
           monthFrom = date_obj.month (dateFrom i),
           yearTo = date_obj.year (dateTo i),
           monthTo = date_obj.month (dateTo i),
           totalAmount = snd reduced,
           currency = (case fst reduced of
                         None \<Rightarrow> collective.currency hostCollective
                       | Some c \<Rightarrow> if c = [] then collective.currency hostCollective else c),
           transactions = ts \<rparr>)"

definition Invoice :: "world \<Rightarrow> invoice_args \<Rightarrow> request \<Rightarrow> query list \<times> (error + invoice_range)" where
  "Invoice w args req =
     (case invoiceRequest args of
        Inl e \<Rightarrow> ([], Inl e)
      | Inr i \<Rightarrow>
     (case validateDate (dateFrom i) of
        Inl e \<Rightarrow> ([], Inl e)
      | Inr _ \<Rightarrow>
     (case validateDate (dateTo i) of
        Inl e \<Rightarrow> ([], Inl e)
      | Inr _ \<Rightarrow>
     (case Collective_findOne w (fromCollectiveSlug i) of
        None \<Rightarrow> ([], Inl (NotFound ''User or organization not found for slug undefined''))
      | Some fromCollective \<Rightarrow>
     (case Collective_findBySlug w (collectiveSlug i) of
        None \<Rightarrow> ([], Inl (NotFound ''Host not found''))
      | Some hostCollective \<Rightarrow>
          if notAdmin req (collective.id' fromCollective)
          then ([], Inl (Unauthorized ''You don't have permission to access invoices for this user''))
          else
            let startsAt = dateParse w
                  (dateString (date_obj.year (dateFrom i)) (date_obj.month (dateFrom i)));
                endsAt = dateParse w
                  (dateString (date_obj.year (dateTo i)) (date_obj.month (dateTo i)))
            in if date_lt endsAt startsAt
               then ([], Inl (ValidationFailed ''validation_failed'' (Some [''InvoiceDateType''])
                       (Some ''Invalid date object. dateFrom must be before dateTo'')))
               else
                 (case fetchRange w (collective.id' fromCollective)
                         (collective.id' hostCollective) startsAt endsAt of
                    Inl e \<Rightarrow> ([TransactionFindAll], Inl e)
                  | Inr ts \<Rightarrow>
                      if length ts = 0
                      then ([TransactionFindAll], Inl (NotFound ''No transactions found''))
                      else ([TransactionFindAll],
                            Inr (buildInvoice args i fromCollective hostCollective ts))))))))"

subsection \<open>TransactionInvoice\<close>

record invoice_single =
  title :: string
  HostCollectiveId :: "nat option"
  FromCollectiveId :: nat
  slug :: string
  currency :: string
  totalAmount :: int
  transactions :: "transaction list"
  yearFrom :: int
  monthFrom :: nat
  day :: nat

definition TransactionInvoice :: "world \<Rightarrow> string \<Rightarrow> query list \<times> (error + invoice_single)" where
  "TransactionInvoice w transactionUuid =
     (case Transaction_findOne w (\<lambda>t. uuid t = transactionUuid) of
        None \<Rightarrow>
          ([TransactionFindOne],
           Inl (NotFound (''Transaction '' @ transactionUuid @ '' doesn't exists'')))
      | Some found \<Rightarrow>
          let fromCollectiveId = paymentMethodProviderCollectiveId w found;
              loaded = found \<lparr> host := getHostCollective w found \<rparr>;
              totalAmountInHostCurrency =
                (if type' loaded = CREDIT then amount loaded
                 else netAmountInCollectiveCurrency loaded * - 1)
          in ([TransactionFindOne],
              Inr \<lparr> title = invoiceTitle (host loaded),
                    HostCollectiveId = map_option collective.id' (host loaded),
                    FromCollectiveId = fromCollectiveId,
                    slug = ''transaction-'' @ transactionUuid,
                    currency = hostCurrency loaded,
                    totalAmount = totalAmountInHostCurrency,
                    transactions = [loaded],
                    yearFrom = getFullYear w (createdAt loaded),
                    monthFrom = getMonth w (createdAt loaded) + 1,
                    day = getDate w (createdAt loaded) \<rparr>))"

subsection \<open>Groups of transactions\<close>

text \<open>
  Names for the statements about \<^verbatim>\<open>allInvoices\<close>: the credits the query fetches for a
  payer, the month and host of a transaction and of an invoice, and the key of a
  transaction whose host is looked up in the store (the empty slug standing for a host
  that is not found).
\<close>

definition creditsOf :: "world \<Rightarrow> collective \<Rightarrow> transaction list" where
  "creditsOf w fromCollective =
     Transaction_findAll w
       (\<lambda>t. type' t = CREDIT \<and> fromOrVirtualCard (collective.id' fromCollective) t)"

definition monthHostOf :: "world \<Rightarrow> transaction \<Rightarrow> int \<times> nat \<times> nat" where
  "monthHostOf w t =
     (getFullYear w (createdAt t), getMonth w (createdAt t) + 1, transaction.HostCollectiveId t)"

definition monthHost :: "invoice_summary \<Rightarrow> int \<times> nat \<times> nat" where
  "monthHost i =
     (invoice_summary.year i, invoice_summary.month i, invoice_summary.HostCollectiveId i)"

definition hostSlugOf :: "world \<Rightarrow> nat \<Rightarrow> string" where
  "hostSlugOf w k = (case Collective_findByPk w k of None \<Rightarrow> [] | Some h \<Rightarrow> collective.slug h)"

definition storeKey :: "world \<Rightarrow> collective \<Rightarrow> transaction \<Rightarrow> string" where
  "storeKey w fromCollective t =
     slugOf (getFullYear w (createdAt t)) (getMonth w (createdAt t) + 1)
       (hostSlugOf w (transaction.HostCollectiveId t)) (collective.slug fromCollective)"

definition storeAdd :: "world \<Rightarrow> collective \<Rightarrow> (string \<times> invoice_summary) list \<Rightarrow> transaction \<Rightarrow> (string \<times> invoice_summary) list" where
  "storeAdd w fromCollective invoicesByKey t =
     (case Collective_findByPk w (transaction.HostCollectiveId t) of
        None \<Rightarrow> invoicesByKey
      | Some h \<Rightarrow> addInvoice w fromCollective h invoicesByKey t)"

definition groupOf :: "world \<Rightarrow> collective \<Rightarrow> string \<Rightarrow> transaction list \<Rightarrow> invoice_summary option" where
  "groupOf w fromCollective k ts =
     (case filter (\<lambda>t. storeKey w fromCollective t = k) ts of
        [] \<Rightarrow> None
      | t # g \<Rightarrow>
          Some \<lparr> invoice_summary.HostCollectiveId = transaction.HostCollectiveId (last (t # g)),
                 invoice_summary.FromCollectiveId = collective.id' fromCollective,
                 invoice_summary.slug = k,
                 invoice_summary.year = getFullYear w (createdAt (last (t # g))),
                 invoice_summary.month = getMonth w (createdAt (last (t # g))) + 1,
                 invoice_summary.totalAmount = sum_list (map amountInHostCurrency (t # g)),
                 invoice_summary.currency = hostCurrency (last (t # g)) \<rparr>)"

subsection \<open>A small store\<close>

text \<open>
  The store of the test suite: the user \<^verbatim>\<open>xdamman\<close>, the host
  \<^verbatim>\<open>brusselstogether-host\<close>, and donations in September, October and November 2017.
  A time value of this store is the number \<open>yyyymmdd\<close>, read by its calendar.
\<close>

definition demoUser :: collective where
  "demoUser = \<lparr> collective.id' = 3, collective.slug = ''xdamman'',
                collective.currency = ''EUR'', settings_invoiceTitle = None \<rparr>"

definition demoHost :: collective where
  "demoHost = \<lparr> collective.id' = 2, collective.slug = ''brusselstogether-host'',
                collective.currency = ''EUR'', settings_invoiceTitle = None \<rparr>"

definition demoWorld :: "transaction list \<Rightarrow> world" where
  "demoWorld ts =
     \<lparr> collectives = [demoUser, demoHost],
       world.transactions = ts,
       getFullYear = (\<lambda>t. t div 10000),
       getMonth = (\<lambda>t. nat ((t div 100) mod 100) - 1),
       getDate = (\<lambda>t. nat (t mod 100)),
       dateParse = (\<lambda>s. if s = ''2017-10-01'' then Some 20171001
                         else if s = ''2017-11-01'' then Some 20171101
                         else if s = ''2016-11-01'' then Some 20161101
                         else if s = ''2014-11-01'' then Some 20141101
                         else if s = ''2017-12-01'' then Some 20171201
                         else None),
       paymentMethodProviderCollectiveId = transaction.FromCollectiveId,
       completionOrder = rev \<rparr>"

definition demoCredit :: "nat \<Rightarrow> int \<Rightarrow> int \<Rightarrow> string \<Rightarrow> transaction" where
  "demoCredit n created amt cur =
     \<lparr> transaction.id' = n, uuid = ''u-'' @ digitsOf n, createdAt = created, type' = CREDIT,
       amount = amt, amountInHostCurrency = amt, netAmountInCollectiveCurrency = amt,
       hostCurrency = cur, transaction.HostCollectiveId = 2,
       transaction.FromCollectiveId = 3, UsingVirtualCardFromCollectiveId = None,
       host = None \<rparr>"

definition demoDonations :: "transaction list" where
  "demoDonations =
     [demoCredit 1 20170903 1000 ''EUR'', demoCredit 2 20171005 1000 ''EUR'',
      demoCredit 3 20171025 500 ''EUR'', demoCredit 4 20171105 500 ''EUR'',
      demoCredit 5 20171125 500 ''EUR'']"

definition demoAdmin :: request where
  "demoAdmin = \<lparr> remoteUser = Some \<lparr> isAdmin = (\<lambda>c. c = 3) \<rparr> \<rparr>"

definition demoRange :: "string \<Rightarrow> string \<Rightarrow> string \<Rightarrow> string \<Rightarrow> string \<Rightarrow> invoice_args" where
  "demoRange y1 m1 y2 m2 hostSlug =
     \<lparr> invoiceInputType = Some
         \<lparr> dateFrom = \<lparr> date_obj.year = JStr y1, date_obj.month = JStr m1 \<rparr>,
           dateTo = \<lparr> date_obj.year = JStr y2, date_obj.month = JStr m2 \<rparr>,
           invoice_input.collectiveSlug = hostSlug,
           fromCollectiveSlug = ''xdamman'' \<rparr>,
       invoiceSlug = None \<rparr>"

definition demoInvoice :: "nat \<Rightarrow> string \<Rightarrow> int \<Rightarrow> invoice_summary" where
  "demoInvoice m k amt =
     \<lparr> invoice_summary.HostCollectiveId = 2, invoice_summary.FromCollectiveId = 3,
       invoice_summary.slug = k, invoice_summary.year = 2017, invoice_summary.month = m,
       invoice_summary.totalAmount = amt, invoice_summary.currency = ''EUR'' \<rparr>"

definition demoInvoices :: "invoice_summary list" where
  "demoInvoices =
     [demoInvoice 11 ''201711.brusselstogether-host.xdamman'' 1000,
      demoInvoice 10 ''201710.brusselstogether-host.xdamman'' 1500,
      demoInvoice 9 ''201709.brusselstogether-host.xdamman'' 1000]"

definition demoDebit :: transaction where
  "demoDebit = \<lparr> transaction.id' = 7, uuid = ''u-7'', createdAt = 20171105, type' = DEBIT,
       amount = - 1000, amountInHostCurrency = - 1000, netAmountInCollectiveCurrency = - 800,
       hostCurrency = ''EUR'', transaction.HostCollectiveId = 2,
       transaction.FromCollectiveId = 3, UsingVirtualCardFromCollectiveId = None,
       host = None \<rparr>"

text \<open>
  A larger ledger on the same store: the donations, a debit of the payer, a credit of
  another payer, a credit the payer made with a virtual card of collective 5, and a
  credit collective 5 made with a virtual card of the payer.
\<close>

definition demoLedger :: "transaction list" where
  "demoLedger =
     demoDonations @
     [demoDebit,
      (demoCredit 8 20171107 300 ''EUR'') \<lparr> transaction.FromCollectiveId := 5 \<rparr>,
      (demoCredit 9 20171108 400 ''EUR'') \<lparr> UsingVirtualCardFromCollectiveId := Some 5 \<rparr>,
      (demoCredit 10 20171110 200 ''EUR'')
        \<lparr> transaction.FromCollectiveId := 5, UsingVirtualCardFromCollectiveId := Some 3 \<rparr>]"

definition demoLedgerCredits :: "transaction list" where
  "demoLedgerCredits =
     demoDonations @
     [(demoCredit 10 20171110 200 ''EUR'')
        \<lparr> transaction.FromCollectiveId := 5, UsingVirtualCardFromCollectiveId := Some 3 \<rparr>]"

definition demoLedgerInvoices :: "invoice_summary list" where
  "demoLedgerInvoices =
     [demoInvoice 11 ''201711.brusselstogether-host.xdamman'' 1200,
      demoInvoice 10 ''201710.brusselstogether-host.xdamman'' 1500,
      demoInvoice 9 ''201709.brusselstogether-host.xdamman'' 1000]"

text \<open>
  A store in which a second host, with id 4, carries the slug of the first, and the payer
  gave to both in October 2017.
\<close>

definition demoTwin :: collective where
  "demoTwin = \<lparr> collective.id' = 4, collective.slug = ''brusselstogether-host'',
                collective.currency = ''EUR'', settings_invoiceTitle = None \<rparr>"

definition demoTwinGifts :: "transaction list" where
  "demoTwinGifts =
     [demoCredit 2 20171005 1000 ''EUR'',
      (demoCredit 3 20171025 700 ''EUR'') \<lparr> transaction.HostCollectiveId := 4 \<rparr>]"

definition demoTwinWorld :: world where
  "demoTwinWorld = (demoWorld demoTwinGifts) \<lparr> collectives := [demoUser, demoHost, demoTwin] \<rparr>"

section \<open>Properties\<close>

text \<open>Unfolding sets that evaluate the conversions on a literal.\<close>

lemmas s2n = StringToNumber_def trim_def isWhiteSpace_def unsignedDecimal_def isDigit_def
  exponentPart_def digitsValue_def

lemmas n2s = NumberToString.simps positiveToString_def digitsOf.simps

lemmas strs = substr_def substring_def lastIndexOf_def substr_from_def

subsection \<open>Digits and numeric strings\<close>

lemma digit_char_cases:
  assumes "d < 10"
  obtains "d = 0" | "d = 1" | "d = 2" | "d = 3" | "d = 4" | "d = 5" | "d = 6" | "d = 7"
    | "d = 8" | "d = (9::nat)"
proof -
  have "d = 0 \<or> d = 1 \<or> d = 2 \<or> d = 3 \<or> d = 4 \<or> d = 5 \<or> d = 6 \<or> d = 7 \<or> d = 8 \<or> d = 9"
    using assms by presburger
  then show thesis using that by blast
qed

lemma isDigit_nth: "d < 10 \<Longrightarrow> isDigit (''0123456789'' ! d)"
  by (erule digit_char_cases) (simp_all add: isDigit_def)

lemma value_nth: "d < 10 \<Longrightarrow> of_char (''0123456789'' ! d) - 48 = d"
  by (erule digit_char_cases) simp_all

lemma digitsOf_nonempty: "digitsOf n \<noteq> []"
  by (subst digitsOf.simps) simp

lemma isDigit_digitsOf: "list_all isDigit (digitsOf n)"
proof (induction n rule: digitsOf.induct)
  case (1 n)
  show ?case
  proof (cases "n < 10")
    case True
    then show ?thesis by (subst digitsOf.simps) (simp add: isDigit_nth)
  next
    case False
    then show ?thesis using 1 by (subst digitsOf.simps) (simp add: isDigit_nth)
  qed
qed

lemma digitsValue_snoc: "digitsValue (ds @ [c]) = digitsValue ds * 10 + (of_char c - 48)"
  by (simp add: digitsValue_def)

lemma digitsValue_digitsOf: "digitsValue (digitsOf n) = n"
proof (induction n rule: digitsOf.induct)
  case (1 n)
  show ?case
  proof (cases "n < 10")
    case True
    then show ?thesis by (subst digitsOf.simps) (simp add: digitsValue_def value_nth)
  next
    case False
    then show ?thesis using 1
      by (subst digitsOf.simps) (simp add: digitsValue_snoc value_nth)
  qed
qed

lemma length_digitsOf_le: "0 < k \<Longrightarrow> n < 10 ^ k \<Longrightarrow> length (digitsOf n) \<le> k"
proof (induction n arbitrary: k rule: digitsOf.induct)
  case (1 n)
  show ?case
  proof (cases "n < 10")
    case True
    then show ?thesis using 1(2) by (subst digitsOf.simps) simp
  next
    case False
    then obtain j where k: "k = Suc j" and j: "0 < j"
      using 1(2,3) by (cases k; cases "k - 1") auto
    have "n div 10 < 10 ^ j" using 1(3) k by (simp add: less_mult_imp_div_less mult.commute)
    then have "length (digitsOf (n div 10)) \<le> j" using 1(1)[OF False j] by simp
    then show ?thesis using False k by (subst digitsOf.simps) simp
  qed
qed

lemma length_digitsOf_ge: "10 ^ k \<le> n \<Longrightarrow> k < length (digitsOf n)"
proof (induction n arbitrary: k rule: digitsOf.induct)
  case (1 n)
  show ?case
  proof (cases "n < 10")
    case True
    have "k = 0"
    proof (cases k)
      case (Suc j)
      have "(1::nat) \<le> 10 ^ j" by simp
      then have "(10::nat) \<le> 10 ^ k" using Suc by simp
      then show ?thesis using True 1(2) by simp
    qed simp
    then show ?thesis by (simp add: digitsOf_nonempty)
  next
    case False
    show ?thesis
    proof (cases k)
      case 0
      then show ?thesis by (simp add: digitsOf_nonempty)
    next
      case (Suc j)
      then have "10 ^ j \<le> n div 10" using 1(2) by (simp add: less_eq_div_iff_mult_less_eq mult.commute)
      then have "j < length (digitsOf (n div 10))" using 1(1)[OF False] by simp
      then show ?thesis using False Suc by (subst digitsOf.simps) simp
    qed
  qed
qed

lemma not_isDigit_special [simp]:
  "\<not> isDigit (CHR ''.'')" "\<not> isDigit (CHR ''-'')" "\<not> isDigit (CHR ''+'')"
  "\<not> isDigit (CHR ''I'')" "\<not> isDigit (CHR ''x'')" "\<not> isDigit (CHR ''X'')"
  "\<not> isDigit (CHR ''o'')" "\<not> isDigit (CHR ''O'')" "\<not> isDigit (CHR ''b'')" "\<not> isDigit (CHR ''B'')"
  by (simp_all add: isDigit_def)

lemma isDigit_not_space: "isDigit c \<Longrightarrow> \<not> isWhiteSpace c"
  by (auto simp: isDigit_def isWhiteSpace_def)

lemma trim_digits: "list_all isDigit ds \<Longrightarrow> trim ds = ds"
proof (cases ds rule: rev_cases)
  case Nil
  then show ?thesis by (simp add: trim_def)
next
  case (snoc ys y)
  assume a: "list_all isDigit ds"
  then have "\<not> isWhiteSpace y" using snoc by (simp add: isDigit_not_space)
  moreover have "dropWhile isWhiteSpace ds = ds"
    using a by (cases ds) (simp_all add: isDigit_not_space)
  ultimately show ?thesis using snoc by (simp add: trim_def)
qed

lemma StringToNumber_digits:
  assumes "ds \<noteq> []" "list_all isDigit ds"
  shows "StringToNumber ds = Fin (int (digitsValue ds)) 0"
proof -
  obtain c r where ds: "ds = c # r" using assms(1) by (cases ds) auto
  have c: "isDigit c" and r: "list_all isDigit r" using assms(2) ds by auto
  have hd_r: "r \<noteq> [] \<Longrightarrow> isDigit (hd r)" using r by (cases r) auto
  have tw: "takeWhile isDigit ds = ds" "dropWhile isDigit ds = []"
    using assms(2) by (simp_all add: list_all_iff)
  have ninf: "ds \<noteq> ''Infinity''" using c ds by auto
  have ud: "unsignedDecimal ds = Fin (int (digitsValue ds)) 0"
    using assms(1) ninf by (simp add: unsignedDecimal_def tw exponentPart_def)
  have nx: "\<not> (r \<noteq> [] \<and> hd r \<in> set ''xX'')" "\<not> (r \<noteq> [] \<and> hd r \<in> set ''oO'')"
    "\<not> (r \<noteq> [] \<and> hd r \<in> set ''bB'')" using hd_r by auto
  have sg: "c \<noteq> CHR ''-''" "c \<noteq> CHR ''+''" using c by auto
  have tr: "trim (c # r) = c # r" using trim_digits[OF assms(2)] ds by simp
  show ?thesis
    using nx sg ud unfolding ds by (auto simp: StringToNumber_def tr)
qed

lemma strip_zeros:
  "take (length xs - length (takeWhile (\<lambda>c. c = z) (rev xs))) xs
     @ replicate (length (takeWhile (\<lambda>c. c = z) (rev xs))) z = xs"
proof -
  let ?t = "takeWhile (\<lambda>c. c = z) (rev xs)" and ?d = "dropWhile (\<lambda>c. c = z) (rev xs)"
  have r: "rev xs = ?t @ ?d" by simp
  have xs: "xs = rev ?d @ rev ?t" by (metis r rev_append rev_rev_ident)
  have t: "?t = replicate (length ?t) z"
    by (metis (mono_tags, lifting) replicate_length_same set_takeWhileD)
  have l: "length xs - length ?t = length (rev ?d)" by (metis xs add_diff_cancel_right' length_append length_rev)
  have "take (length xs - length ?t) xs = rev ?d"
    by (metis l xs append_eq_conv_conj)
  moreover have "replicate (length ?t) z = rev ?t" by (metis t rev_replicate)
  ultimately show ?thesis using xs by metis
qed

lemma positiveToString_int:
  assumes "length (digitsOf n) \<le> 21"
  shows "positiveToString n 0 = digitsOf n"
proof -
  let ?z = "length (takeWhile (\<lambda>c. c = CHR ''0'') (rev (digitsOf n)))"
  have z: "?z \<le> length (digitsOf n)" by (metis length_rev length_takeWhile_le)
  show ?thesis
    using assms z strip_zeros[of "digitsOf n" "CHR ''0''"]
    by (simp add: positiveToString_def Let_def nat_diff_distrib')
qed

lemma NumberToString_int:
  assumes "\<bar>y\<bar> < 10 ^ 21"
  shows "NumberToString (Fin y 0) =
           (if y < 0 then CHR ''-'' # digitsOf (nat (- y)) else digitsOf (nat y))"
proof -
  have "nat \<bar>y\<bar> < 10 ^ 21" using assms by (simp add: nat_less_iff)
  then have l: "length (digitsOf (nat \<bar>y\<bar>)) \<le> 21" by (intro length_digitsOf_le) simp_all
  show ?thesis
  proof (cases "y = 0")
    case True
    then show ?thesis by (simp add: digitsOf.simps NumberToString.simps)
  next
    case False
    then show ?thesis using l by (auto simp: NumberToString.simps positiveToString_int abs_if split: if_splits)
  qed
qed

subsection \<open>The parts of a slug\<close>


lemma lastIndexOf_ge: "int (length p) \<le> lastIndexOf (p @ c # f) c"
proof -
  have "takeWhile (\<lambda>x. x \<noteq> c) (rev f @ c # rev p) = takeWhile (\<lambda>x. x \<noteq> c) (rev f)"
    by (rule takeWhile_tail) simp
  moreover have "length (takeWhile (\<lambda>x. x \<noteq> c) (rev f)) \<le> length f"
    by (metis length_rev length_takeWhile_le)
  ultimately show ?thesis by (simp add: lastIndexOf_def)
qed

lemma lastIndexOf_lt: "lastIndexOf s c < int (length s)"
  by (simp add: lastIndexOf_def)

lemma lastIndexOf_last: "c \<notin> set f \<Longrightarrow> lastIndexOf (p @ c # f) c = int (length p)"
proof -
  assume a: "c \<notin> set f"
  have "takeWhile (\<lambda>x. x \<noteq> c) (rev f @ c # rev p) = takeWhile (\<lambda>x. x \<noteq> c) (rev f)"
    by (rule takeWhile_tail) simp
  moreover have "takeWhile (\<lambda>x. x \<noteq> c) (rev f) = rev f"
    using a by (auto simp: takeWhile_eq_all_conv)
  ultimately show ?thesis by (simp add: lastIndexOf_def)
qed

lemma parseInvoiceSlug_unfold:
  "parseInvoiceSlug s =
     (if substring s 7 (lastIndexOf s (CHR ''.'')) = [] \<or> js_lt (JStr (substr s 0 4)) (JInt 2015)
         \<or> js_lt (JStr (substr s 4 2)) (JInt 1) \<or> js_lt (JInt 12) (JStr (substr s 4 2))
      then Inl (ValidationFailed
             ''Invalid invoiceSlug format. Should be :year:2digitMonth.:hostSlug.:fromCollectiveSlug''
             None None)
      else Inr \<lparr> dateFrom = \<lparr> date_obj.year = JStr (substr s 0 4), date_obj.month = JStr (substr s 4 2) \<rparr>,
                 dateTo = \<lparr> date_obj.year = JStr (substr s 0 4),
                   date_obj.month = JStr (NumberToString (num_add (StringToNumber (substr s 4 2)) (Fin 1 0))) \<rparr>,
                 invoice_input.collectiveSlug = substring s 7 (lastIndexOf s (CHR ''.'')),
                 fromCollectiveSlug = substr_from s (nat (lastIndexOf s (CHR ''.'') + 1)) \<rparr>)"
  by (simp add: parseInvoiceSlug_def Let_def)

lemma slug_parts:
  assumes "length Y = 4" "length M = 2"
  shows "substr (Y @ M @ ''.'' @ h @ ''.'' @ f) 0 4 = Y"
    and "substr (Y @ M @ ''.'' @ h @ ''.'' @ f) 4 2 = M"
  using assms by (simp_all add: substr_def)

lemma slug_host_nonempty:
  assumes "length Y = 4" "length M = 2" "h \<noteq> []"
  shows "substring (Y @ M @ ''.'' @ h @ ''.'' @ f) 7
           (lastIndexOf (Y @ M @ ''.'' @ h @ ''.'' @ f) (CHR ''.'')) \<noteq> []"
proof -
  let ?s = "Y @ M @ ''.'' @ h @ ''.'' @ f"
  let ?li = "lastIndexOf ?s (CHR ''.'')"
  have "int (length (Y @ M @ ''.'' @ h)) \<le> lastIndexOf ((Y @ M @ ''.'' @ h) @ CHR ''.'' # f) (CHR ''.'')"
    by (rule lastIndexOf_ge)
  then have ge: "7 + int (length h) \<le> ?li" using assms by simp
  have lt: "?li < int (length ?s)" by (rule lastIndexOf_lt)
  have h: "0 < length h" using assms(3) by simp
  show ?thesis using ge lt h assms(1,2)
    by (simp add: substring_def Let_def min_def max_def)
qed

lemma slug_host_from:
  assumes "length Y = 4" "length M = 2" "CHR ''.'' \<notin> set f"
  shows "substring (Y @ M @ ''.'' @ h @ ''.'' @ f) 7
           (lastIndexOf (Y @ M @ ''.'' @ h @ ''.'' @ f) (CHR ''.'')) = h"
    and "substr_from (Y @ M @ ''.'' @ h @ ''.'' @ f)
           (nat (lastIndexOf (Y @ M @ ''.'' @ h @ ''.'' @ f) (CHR ''.'') + 1)) = f"
proof -
  let ?s = "Y @ M @ ''.'' @ h @ ''.'' @ f"
  have "lastIndexOf ((Y @ M @ ''.'' @ h) @ CHR ''.'' # f) (CHR ''.'') = int (length (Y @ M @ ''.'' @ h))"
    using assms(3) by (rule lastIndexOf_last)
  then have li: "lastIndexOf ?s (CHR ''.'') = 7 + int (length h)" using assms by simp
  show "substring ?s 7 (lastIndexOf ?s (CHR ''.'')) = h"
    unfolding li using assms(1,2) by (simp add: substring_def Let_def min_def max_def)
  have "nat (7 + int (length h) + 1) = length (Y @ M @ ''.'' @ h @ ''.'')" using assms(1,2) by simp
  then show "substr_from ?s (nat (lastIndexOf ?s (CHR ''.'') + 1)) = f"
    unfolding li substr_from_def by (metis append.assoc append_eq_conv_conj)
qed

lemma year_string:
  assumes "1000 \<le> y" "y \<le> 9999"
  shows "NumberToString (Fin y 0) = digitsOf (nat y)"
    and "length (digitsOf (nat y)) = 4"
proof -
  show "NumberToString (Fin y 0) = digitsOf (nat y)" using assms by (simp add: NumberToString_int)
  have "nat y < 10 ^ 4" using assms by simp
  then have "length (digitsOf (nat y)) \<le> 4" by (intro length_digitsOf_le) simp_all
  moreover have "10 ^ 3 \<le> nat y" using assms by simp
  then have "3 < length (digitsOf (nat y))" by (rule length_digitsOf_ge)
  ultimately show "length (digitsOf (nat y)) = 4" by simp
qed

lemma year_number:
  assumes "1000 \<le> y" "y \<le> 9999"
  shows "StringToNumber (NumberToString (Fin y 0)) = Fin y 0"
  using assms
  by (simp add: year_string(1) StringToNumber_digits digitsOf_nonempty isDigit_digitsOf
      digitsValue_digitsOf)

lemma month2digit_eq:
  assumes "m \<le> 99"
  shows "month2digit m = (if m < 10 then CHR ''0'' # digitsOf m else digitsOf m)"
proof -
  have "NumberToString (Fin (int m) 0) = digitsOf m"
    using assms by (simp add: NumberToString_int)
  then show ?thesis by (simp add: month2digit_def)
qed

lemma month2digit_digits: "m \<le> 99 \<Longrightarrow> list_all isDigit (month2digit m)"
  by (simp add: month2digit_eq isDigit_digitsOf isDigit_def)

lemma month2digit_value: "m \<le> 99 \<Longrightarrow> digitsValue (month2digit m) = m"
proof -
  have "digitsValue (CHR ''0'' # ds) = digitsValue ds" for ds by (simp add: digitsValue_def)
  then show "m \<le> 99 \<Longrightarrow> digitsValue (month2digit m) = m"
    by (simp add: month2digit_eq digitsValue_digitsOf)
qed

lemma month2digit_length: "m \<le> 99 \<Longrightarrow> length (month2digit m) = 2"
proof -
  assume a: "m \<le> 99"
  show ?thesis
  proof (cases "m < 10")
    case True
    then show ?thesis using a by (simp add: month2digit_eq digitsOf.simps)
  next
    case False
    then have "m div 10 < 10" using a by simp
    then show ?thesis using a False
      by (simp add: month2digit_eq digitsOf.simps[of m] digitsOf.simps[of "m div 10"])
  qed
qed

lemma month2digit_number: "m \<le> 99 \<Longrightarrow> StringToNumber (month2digit m) = Fin (int m) 0"
proof -
  assume a: "m \<le> 99"
  have "month2digit m \<noteq> []" using month2digit_length[OF a] by auto
  then show ?thesis
    using a by (simp add: StringToNumber_digits month2digit_digits month2digit_value)
qed

lemma slugOf_parse:
  assumes "2015 \<le> y" "y \<le> 9999" "1 \<le> m" "m \<le> 12" "h \<noteq> []" "CHR ''.'' \<notin> set f"
  shows "parseInvoiceSlug (slugOf y m h f) =
           Inr \<lparr> dateFrom = \<lparr> date_obj.year = JStr (NumberToString (Fin y 0)),
                              date_obj.month = JStr (month2digit m) \<rparr>,
                 dateTo = \<lparr> date_obj.year = JStr (NumberToString (Fin y 0)),
                            date_obj.month = JStr (NumberToString (Fin (int m + 1) 0)) \<rparr>,
                 invoice_input.collectiveSlug = h,
                 fromCollectiveSlug = f \<rparr>"
proof -
  let ?Y = "NumberToString (Fin y 0)" and ?M = "month2digit m"
  have y: "1000 \<le> y" using assms(1) by simp
  have m: "m \<le> 99" using assms(4) by simp
  have lY: "length ?Y = 4" using year_string[OF y assms(2)] by simp
  have lM: "length ?M = 2" using month2digit_length[OF m] .
  have s: "slugOf y m h f = ?Y @ ?M @ ''.'' @ h @ ''.'' @ f" by (simp add: slugOf_def)
  have ny: "StringToNumber ?Y = Fin y 0" using year_number[OF y assms(2)] .
  have nm: "StringToNumber ?M = Fin (int m) 0" using month2digit_number[OF m] .
  show ?thesis
    unfolding s parseInvoiceSlug_unfold slug_parts[OF lY lM] slug_host_from[OF lY lM assms(6)]
    using assms(1,3,4,5) by (simp add: ny nm)
qed

subsection \<open>Dates and slugs\<close>

text \<open>
  Claim C6. \<^verbatim>\<open>validateDate\<close> throws the validation error with the message "Invalid date
  object. Must have a valid month, where 1 == January, and be after 2014" exactly when
  \<open>year < 2015\<close> or \<open>month < 1\<close> or \<open>month > 12\<close>, and returns otherwise: for a date object
  with numeric fields in the order of the integers, for any date object in the
  comparison of the language. The dates 2014/6, 2017/0 and 2017/13 fail and 2015/1 passes.
\<close>

theorem validateDate_rejects_iff:
  "(validateDate \<lparr> date_obj.year = JInt y, date_obj.month = JInt m \<rparr> =
      Inl (ValidationFailed ''validation_failed'' (Some [''InvoiceDateType''])
        (Some ''Invalid date object. Must have a valid month, where 1 == January, and be after 2014'')))
     = (y < 2015 \<or> m < 1 \<or> 12 < m)
   \<and> (validateDate \<lparr> date_obj.year = JInt y, date_obj.month = JInt m \<rparr> = Inr ())
     = (2015 \<le> y \<and> 1 \<le> m \<and> m \<le> 12)
   \<and> (validateDate d =
      Inl (ValidationFailed ''validation_failed'' (Some [''InvoiceDateType''])
        (Some ''Invalid date object. Must have a valid month, where 1 == January, and be after 2014'')))
     = (js_lt (date_obj.year d) (JInt 2015) \<or> js_lt (date_obj.month d) (JInt 1)
        \<or> js_lt (JInt 12) (date_obj.month d))
   \<and> (validateDate d = Inr ())
     = (\<not> js_lt (date_obj.year d) (JInt 2015) \<and> \<not> js_lt (date_obj.month d) (JInt 1)
        \<and> \<not> js_lt (JInt 12) (date_obj.month d))
   \<and> validateDate \<lparr> date_obj.year = JInt 2014, date_obj.month = JInt 6 \<rparr> =
      Inl (ValidationFailed ''validation_failed'' (Some [''InvoiceDateType''])
        (Some ''Invalid date object. Must have a valid month, where 1 == January, and be after 2014''))
   \<and> validateDate \<lparr> date_obj.year = JInt 2017, date_obj.month = JInt 0 \<rparr> =
      Inl (ValidationFailed ''validation_failed'' (Some [''InvoiceDateType''])
        (Some ''Invalid date object. Must have a valid month, where 1 == January, and be after 2014''))
   \<and> validateDate \<lparr> date_obj.year = JInt 2017, date_obj.month = JInt 13 \<rparr> =
      Inl (ValidationFailed ''validation_failed'' (Some [''InvoiceDateType''])
        (Some ''Invalid date object. Must have a valid month, where 1 == January, and be after 2014''))
   \<and> validateDate \<lparr> date_obj.year = JInt 2015, date_obj.month = JInt 1 \<rparr> = Inr ()"
  by (simp add: validateDate_def)

theorem validateDate_rejects_iff_witness:
  "validateDate \<lparr> date_obj.year = JStr ''2014'', date_obj.month = JStr ''10'' \<rparr> =
      Inl (ValidationFailed ''validation_failed'' (Some [''InvoiceDateType''])
        (Some ''Invalid date object. Must have a valid month, where 1 == January, and be after 2014''))
   \<and> validateDate \<lparr> date_obj.year = JStr ''2017'', date_obj.month = JStr ''0'' \<rparr> =
      Inl (ValidationFailed ''validation_failed'' (Some [''InvoiceDateType''])
        (Some ''Invalid date object. Must have a valid month, where 1 == January, and be after 2014''))
   \<and> validateDate \<lparr> date_obj.year = JStr ''2017'', date_obj.month = JStr ''11'' \<rparr> = Inr ()"
  using validateDate_rejects_iff [of 0 0 "\<lparr> date_obj.year = JStr ''2014'', date_obj.month = JStr ''10'' \<rparr>"]
    validateDate_rejects_iff [of 0 0 "\<lparr> date_obj.year = JStr ''2017'', date_obj.month = JStr ''0'' \<rparr>"]
    validateDate_rejects_iff [of 0 0 "\<lparr> date_obj.year = JStr ''2017'', date_obj.month = JStr ''11'' \<rparr>"]
  by (simp add: s2n)

text \<open>
  Claim C10. The slug \<^verbatim>\<open>abcd12.host.from\<close> is parsed without an error and its year is the
  string \<^verbatim>\<open>abcd\<close>: that string converts to NaN and no comparison with NaN holds, so the
  bound on the year rejects nothing, in \<^verbatim>\<open>parseInvoiceSlug\<close> and in \<^verbatim>\<open>validateDate\<close>
  alike. For the month 11 both dates of the parsed slug pass \<^verbatim>\<open>validateDate\<close>.
\<close>

theorem parseInvoiceSlug_accepts_non_numeric_year:
  "parseInvoiceSlug ''abcd12.host.from'' =
     Inr \<lparr> dateFrom = \<lparr> date_obj.year = JStr ''abcd'', date_obj.month = JStr ''12'' \<rparr>,
           dateTo = \<lparr> date_obj.year = JStr ''abcd'', date_obj.month = JStr ''13'' \<rparr>,
           invoice_input.collectiveSlug = ''host'', fromCollectiveSlug = ''from'' \<rparr>
   \<and> ToNumber (JStr ''abcd'') = NaN
   \<and> js_lt (JStr ''abcd'') (JInt 2015) = False
   \<and> validateDate \<lparr> date_obj.year = JStr ''abcd'', date_obj.month = JStr ''12'' \<rparr> = Inr ()
   \<and> parseInvoiceSlug ''abcd11.host.from'' =
     Inr \<lparr> dateFrom = \<lparr> date_obj.year = JStr ''abcd'', date_obj.month = JStr ''11'' \<rparr>,
           dateTo = \<lparr> date_obj.year = JStr ''abcd'', date_obj.month = JStr ''12'' \<rparr>,
           invoice_input.collectiveSlug = ''host'', fromCollectiveSlug = ''from'' \<rparr>
   \<and> validateDate \<lparr> date_obj.year = JStr ''abcd'', date_obj.month = JStr ''11'' \<rparr> = Inr ()"
  by (simp add: parseInvoiceSlug_unfold validateDate_def strs s2n n2s)

text \<open>
  Claim C2 as stated fails when the payer's slug holds a dot: the host ends at the last
  dot of the whole string, so a part of the payer's slug is read as the host's.
\<close>

theorem parseInvoiceSlug_dotted_payer:
  "slugOf 2017 10 ''host'' ''a.b'' = ''201710.host.a.b''
   \<and> parseInvoiceSlug (slugOf 2017 10 ''host'' ''a.b'') =
     Inr \<lparr> dateFrom = \<lparr> date_obj.year = JStr ''2017'', date_obj.month = JStr ''10'' \<rparr>,
           dateTo = \<lparr> date_obj.year = JStr ''2017'', date_obj.month = JStr ''11'' \<rparr>,
           invoice_input.collectiveSlug = ''host.a'', fromCollectiveSlug = ''b'' \<rparr>"
  by (simp add: slugOf_def month2digit_def parseInvoiceSlug_unfold strs s2n n2s)

text \<open>
  Claim C2, amended. For a year from 2015 to 9999, a month from 1 to 12, a host slug that
  is not empty and a payer slug without a dot, \<^verbatim>\<open>parseInvoiceSlug\<close> of the slug built
  from them (as \<^verbatim>\<open>allInvoices\<close> builds it) returns the four digits of the year, the two
  digits of the month, the host slug and the payer slug; the two strings of digits
  convert back to the year and the month.
\<close>

theorem parseInvoiceSlug_roundtrip:
  assumes "2015 \<le> y" "y \<le> 9999" "1 \<le> m" "m \<le> 12" "h \<noteq> []" "CHR ''.'' \<notin> set f"
  shows "parseInvoiceSlug (slugOf y m h f) =
           Inr \<lparr> dateFrom = \<lparr> date_obj.year = JStr (NumberToString (Fin y 0)),
                              date_obj.month = JStr (month2digit m) \<rparr>,
                 dateTo = \<lparr> date_obj.year = JStr (NumberToString (Fin y 0)),
                            date_obj.month = JStr (NumberToString (Fin (int m + 1) 0)) \<rparr>,
                 invoice_input.collectiveSlug = h,
                 fromCollectiveSlug = f \<rparr>
         \<and> ToNumber (JStr (NumberToString (Fin y 0))) = Fin y 0
         \<and> ToNumber (JStr (month2digit m)) = Fin (int m) 0"
  using assms by (simp add: slugOf_parse year_number month2digit_number)

theorem parseInvoiceSlug_roundtrip_witness:
  "slugOf 2017 10 ''brusselstogether-host'' ''xdamman'' = ''201710.brusselstogether-host.xdamman''
   \<and> parseInvoiceSlug ''201710.brusselstogether-host.xdamman'' =
       Inr \<lparr> dateFrom = \<lparr> date_obj.year = JStr ''2017'', date_obj.month = JStr ''10'' \<rparr>,
             dateTo = \<lparr> date_obj.year = JStr ''2017'', date_obj.month = JStr ''11'' \<rparr>,
             invoice_input.collectiveSlug = ''brusselstogether-host'',
             fromCollectiveSlug = ''xdamman'' \<rparr>"
proof -
  have s: "slugOf 2017 10 ''brusselstogether-host'' ''xdamman'' = ''201710.brusselstogether-host.xdamman''"
    by (simp add: slugOf_def month2digit_def n2s)
  have n: "NumberToString (Fin 2017 0) = ''2017''" "month2digit 10 = ''10''"
    "NumberToString (Fin 11 0) = ''11''"
    by (simp_all add: month2digit_def n2s)
  have "CHR ''.'' \<notin> set ''xdamman''" by simp
  from parseInvoiceSlug_roundtrip [of 2017 10 "''brusselstogether-host''" "''xdamman''", OF _ _ _ _ _ this]
  show ?thesis unfolding s by (simp add: n)
qed

lemma month_12: "StringToNumber ''12'' = Fin 12 0" "StringToNumber ''13'' = Fin 13 0"
  "NumberToString (Fin 13 0) = ''13''" "month2digit 12 = ''12''"
  by (simp_all add: s2n n2s month2digit_def)

lemma validateDate_13:
  "validateDate \<lparr> date_obj.year = yr, date_obj.month = JStr ''13'' \<rparr> =
     Inl (ValidationFailed ''validation_failed'' (Some [''InvoiceDateType''])
       (Some ''Invalid date object. Must have a valid month, where 1 == January, and be after 2014''))"
  by (simp add: validateDate_def month_12)

lemma validateDate_cases:
  "validateDate d = Inr () \<or>
   validateDate d = Inl (ValidationFailed ''validation_failed'' (Some [''InvoiceDateType''])
       (Some ''Invalid date object. Must have a valid month, where 1 == January, and be after 2014''))"
  by (simp add: validateDate_def)

lemma december_parse:
  assumes "substr s 4 2 = ''12''"
  shows "parseInvoiceSlug s = Inl (ValidationFailed
             ''Invalid invoiceSlug format. Should be :year:2digitMonth.:hostSlug.:fromCollectiveSlug''
             None None)
         \<or> (\<exists>i. parseInvoiceSlug s = Inr i
               \<and> dateFrom i = \<lparr> date_obj.year = JStr (substr s 0 4), date_obj.month = JStr ''12'' \<rparr>
               \<and> dateTo i = \<lparr> date_obj.year = JStr (substr s 0 4), date_obj.month = JStr ''13'' \<rparr>)"
  by (simp add: parseInvoiceSlug_unfold assms month_12)

lemma december_Invoice:
  assumes "substr s 4 2 = ''12''"
  shows "\<exists>ty fs msg. Invoice w \<lparr> invoiceInputType = inp, invoiceSlug = Some s \<rparr> req =
           ([], Inl (ValidationFailed ty fs msg))"
proof -
  have ne: "s \<noteq> []" using assms by (auto simp: substr_def)
  then have rq: "invoiceRequest \<lparr> invoiceInputType = inp, invoiceSlug = Some s \<rparr> = parseInvoiceSlug s"
    by (simp add: invoiceRequest_def)
  from december_parse[OF assms] show ?thesis
  proof
    assume "parseInvoiceSlug s = Inl (ValidationFailed
             ''Invalid invoiceSlug format. Should be :year:2digitMonth.:hostSlug.:fromCollectiveSlug''
             None None)"
    then show ?thesis by (simp add: Invoice_def rq)
  next
    assume "\<exists>i. parseInvoiceSlug s = Inr i
               \<and> dateFrom i = \<lparr> date_obj.year = JStr (substr s 0 4), date_obj.month = JStr ''12'' \<rparr>
               \<and> dateTo i = \<lparr> date_obj.year = JStr (substr s 0 4), date_obj.month = JStr ''13'' \<rparr>"
    then obtain i where i: "parseInvoiceSlug s = Inr i"
      and t: "dateTo i = \<lparr> date_obj.year = JStr (substr s 0 4), date_obj.month = JStr ''13'' \<rparr>"
      by blast
    from validateDate_cases[of "dateFrom i"] show ?thesis
      by (auto simp: Invoice_def rq i t validateDate_13)
  qed
qed

text \<open>
  Claim C3. For a slug of December with a year from 2015 to 9999 and a host slug that is
  not empty, \<^verbatim>\<open>parseInvoiceSlug\<close> succeeds with the month 13 in \<^verbatim>\<open>dateTo\<close> and the same
  year, \<^verbatim>\<open>validateDate\<close> accepts \<^verbatim>\<open>dateFrom\<close> and rejects \<^verbatim>\<open>dateTo\<close>, and the
  \<^verbatim>\<open>Invoice\<close> query fails with that validation error before any lookup. More generally
  every slug whose fifth and sixth characters are \<^verbatim>\<open>12\<close> makes the query fail with a
  validation error.
\<close>

theorem Invoice_december_slug_fails:
  assumes "2015 \<le> y" "y \<le> 9999" "h \<noteq> []"
  shows "(\<exists>i. parseInvoiceSlug (slugOf y 12 h f) = Inr i
            \<and> dateFrom i = \<lparr> date_obj.year = JStr (NumberToString (Fin y 0)),
                              date_obj.month = JStr ''12'' \<rparr>
            \<and> dateTo i = \<lparr> date_obj.year = JStr (NumberToString (Fin y 0)),
                            date_obj.month = JStr ''13'' \<rparr>
            \<and> validateDate (dateFrom i) = Inr ()
            \<and> validateDate (dateTo i) =
                Inl (ValidationFailed ''validation_failed'' (Some [''InvoiceDateType''])
                  (Some ''Invalid date object. Must have a valid month, where 1 == January, and be after 2014'')))
         \<and> Invoice w \<lparr> invoiceInputType = inp, invoiceSlug = Some (slugOf y 12 h f) \<rparr> req =
             ([], Inl (ValidationFailed ''validation_failed'' (Some [''InvoiceDateType''])
                  (Some ''Invalid date object. Must have a valid month, where 1 == January, and be after 2014'')))
         \<and> (\<forall>s w' inp' req'. substr s 4 2 = ''12'' \<longrightarrow>
              (\<exists>ty fs msg. Invoice w' \<lparr> invoiceInputType = inp', invoiceSlug = Some s \<rparr> req' =
                 ([], Inl (ValidationFailed ty fs msg))))"
proof -
  let ?Y = "NumberToString (Fin y 0)"
  let ?s = "slugOf y 12 h f"
  have y: "1000 \<le> y" using assms(1) by simp
  have lY: "length ?Y = 4" using year_string[OF y assms(2)] by simp
  have lM: "length ''12'' = 2" by simp
  have s: "?s = ?Y @ ''12'' @ ''.'' @ h @ ''.'' @ f" by (simp add: slugOf_def month_12)
  have ny: "StringToNumber ?Y = Fin y 0" using year_number[OF y assms(2)] .
  have hs: "substring ?s 7 (lastIndexOf ?s (CHR ''.'')) \<noteq> []"
    unfolding s using lY lM assms(3) by (rule slug_host_nonempty)
  have p: "parseInvoiceSlug ?s =
      Inr \<lparr> dateFrom = \<lparr> date_obj.year = JStr ?Y, date_obj.month = JStr ''12'' \<rparr>,
            dateTo = \<lparr> date_obj.year = JStr ?Y, date_obj.month = JStr ''13'' \<rparr>,
            invoice_input.collectiveSlug = substring ?s 7 (lastIndexOf ?s (CHR ''.'')),
            fromCollectiveSlug = substr_from ?s (nat (lastIndexOf ?s (CHR ''.'') + 1)) \<rparr>"
    using hs assms(1) unfolding parseInvoiceSlug_unfold
    unfolding s slug_parts[OF lY lM] by (simp add: ny month_12)
  have vf: "validateDate \<lparr> date_obj.year = JStr ?Y, date_obj.month = JStr ''12'' \<rparr> = Inr ()"
    using assms(1) by (simp add: validateDate_def ny month_12)
  have ne: "?s \<noteq> []" unfolding s by simp
  have rq: "invoiceRequest \<lparr> invoiceInputType = inp, invoiceSlug = Some ?s \<rparr> = parseInvoiceSlug ?s"
    using ne by (simp add: invoiceRequest_def)
  have inv: "Invoice w \<lparr> invoiceInputType = inp, invoiceSlug = Some ?s \<rparr> req =
             ([], Inl (ValidationFailed ''validation_failed'' (Some [''InvoiceDateType''])
                  (Some ''Invalid date object. Must have a valid month, where 1 == January, and be after 2014'')))"
    by (simp add: Invoice_def rq p vf validateDate_13)
  show ?thesis using p vf inv december_Invoice by (simp add: validateDate_13)
qed

theorem Invoice_december_slug_fails_witness:
  "slugOf 2017 12 ''brusselstogether-host'' ''xdamman'' = ''201712.brusselstogether-host.xdamman''
   \<and> Invoice (demoWorld []) \<lparr> invoiceInputType = None,
                  invoiceSlug = Some ''201712.brusselstogether-host.xdamman'' \<rparr>
         \<lparr> remoteUser = None \<rparr> =
       ([], Inl (ValidationFailed ''validation_failed'' (Some [''InvoiceDateType''])
              (Some ''Invalid date object. Must have a valid month, where 1 == January, and be after 2014'')))"
proof -
  have s: "slugOf 2017 12 ''brusselstogether-host'' ''xdamman'' = ''201712.brusselstogether-host.xdamman''"
    by (simp add: slugOf_def month2digit_def n2s)
  from Invoice_december_slug_fails [of 2017 "''brusselstogether-host''" "''xdamman''"
      "demoWorld []" None "\<lparr> remoteUser = None \<rparr>"]
  show ?thesis unfolding s by simp
qed

subsection \<open>The invoice of one transaction\<close>

text \<open>
  Claim C8. When no transaction has the uuid, \<^verbatim>\<open>TransactionInvoice\<close> fails with
  \<^verbatim>\<open>NotFound\<close>. When one is found, the invoice has as total the \<^verbatim>\<open>amount\<close> of a credit
  and \<open>-1\<close> times \<^verbatim>\<open>netAmountInCollectiveCurrency\<close> of any other transaction (800 for a
  debit of -800), the slug \<^verbatim>\<open>transaction-\<close> followed by the uuid, and a list of
  transactions that holds that transaction alone, with its host attached.
\<close>

theorem TransactionInvoice_total:
  "(Transaction_findOne w (\<lambda>t. uuid t = u) = None \<longrightarrow>
      TransactionInvoice w u =
        ([TransactionFindOne], Inl (NotFound (''Transaction '' @ u @ '' doesn't exists''))))
   \<and> (\<forall>t. Transaction_findOne w (\<lambda>t. uuid t = u) = Some t \<longrightarrow>
        uuid t = u
        \<and> (\<exists>inv. TransactionInvoice w u = ([TransactionFindOne], Inr inv)
             \<and> invoice_single.totalAmount inv =
                 (if type' t = CREDIT then amount t else - 1 * netAmountInCollectiveCurrency t)
             \<and> invoice_single.slug inv = ''transaction-'' @ u
             \<and> invoice_single.transactions inv = [t \<lparr> host := getHostCollective w t \<rparr>]
             \<and> (type' t = DEBIT \<and> netAmountInCollectiveCurrency t = - 800
                  \<longrightarrow> invoice_single.totalAmount inv = 800)))"
proof (intro conjI allI impI)
  assume "Transaction_findOne w (\<lambda>t. uuid t = u) = None"
  then show "TransactionInvoice w u =
        ([TransactionFindOne], Inl (NotFound (''Transaction '' @ u @ '' doesn't exists'')))"
    by (simp add: TransactionInvoice_def)
next
  fix t assume f: "Transaction_findOne w (\<lambda>t. uuid t = u) = Some t"
  then show "uuid t = u" by (auto simp: Transaction_findOne_def find_Some_iff)
  show "\<exists>inv. TransactionInvoice w u = ([TransactionFindOne], Inr inv)
             \<and> invoice_single.totalAmount inv =
                 (if type' t = CREDIT then amount t else - 1 * netAmountInCollectiveCurrency t)
             \<and> invoice_single.slug inv = ''transaction-'' @ u
             \<and> invoice_single.transactions inv = [t \<lparr> host := getHostCollective w t \<rparr>]
             \<and> (type' t = DEBIT \<and> netAmountInCollectiveCurrency t = - 800
                  \<longrightarrow> invoice_single.totalAmount inv = 800)"
    using f by (simp add: TransactionInvoice_def Let_def)
qed

theorem TransactionInvoice_total_witness:
  "Transaction_findOne (demoWorld [demoDebit]) (\<lambda>t. uuid t = ''u-7'') = Some demoDebit
   \<and> (\<exists>inv. TransactionInvoice (demoWorld [demoDebit]) ''u-7'' = ([TransactionFindOne], Inr inv)
         \<and> invoice_single.totalAmount inv = 800
         \<and> invoice_single.slug inv = ''transaction-u-7''
         \<and> invoice_single.transactions inv = [demoDebit \<lparr> host := Some demoHost \<rparr>])
   \<and> TransactionInvoice (demoWorld [demoDebit]) ''u-8'' =
        ([TransactionFindOne], Inl (NotFound ''Transaction u-8 doesn't exists''))"
proof -
  have f: "Transaction_findOne (demoWorld [demoDebit]) (\<lambda>t. uuid t = ''u-7'') = Some demoDebit"
    by (simp add: Transaction_findOne_def demoWorld_def demoDebit_def)
  have g: "Transaction_findOne (demoWorld [demoDebit]) (\<lambda>t. uuid t = ''u-8'') = None"
    by (simp add: Transaction_findOne_def demoWorld_def demoDebit_def)
  have h: "getHostCollective (demoWorld [demoDebit]) demoDebit = Some demoHost"
    by (simp add: getHostCollective_def Collective_findByPk_def demoWorld_def demoDebit_def
        demoHost_def demoUser_def)
  have d: "type' demoDebit = DEBIT" "netAmountInCollectiveCurrency demoDebit = - 800"
    by (simp_all add: demoDebit_def)
  from TransactionInvoice_total [of "demoWorld [demoDebit]" "''u-7''"]
    TransactionInvoice_total [of "demoWorld [demoDebit]" "''u-8''"]
  show ?thesis using f g h d by auto
qed

subsection \<open>Permission\<close>

lemma demo_lookup:
  "Collective_findOne (demoWorld ts) ''xdamman'' = Some demoUser"
  "Collective_findBySlug (demoWorld ts) ''brusselstogether-host'' = Some demoHost"
  "Collective_findBySlug (demoWorld ts) ''no-such-host'' = None"
  "Collective_findByPk (demoWorld ts) 2 = Some demoHost"
  by (simp_all add: Collective_findOne_def Collective_findBySlug_def Collective_findByPk_def
      demoWorld_def demoUser_def demoHost_def)

lemma demo_request:
  "invoiceRequest (demoRange y1 m1 y2 m2 h) =
     Inr \<lparr> dateFrom = \<lparr> date_obj.year = JStr y1, date_obj.month = JStr m1 \<rparr>,
           dateTo = \<lparr> date_obj.year = JStr y2, date_obj.month = JStr m2 \<rparr>,
           invoice_input.collectiveSlug = h, fromCollectiveSlug = ''xdamman'' \<rparr>"
  by (simp add: invoiceRequest_def demoRange_def)

lemma demo_dates:
  "validateDate \<lparr> date_obj.year = JStr ''2017'', date_obj.month = JStr ''10'' \<rparr> = Inr ()"
  "validateDate \<lparr> date_obj.year = JStr ''2017'', date_obj.month = JStr ''11'' \<rparr> = Inr ()"
  "validateDate \<lparr> date_obj.year = JStr ''2016'', date_obj.month = JStr ''11'' \<rparr> = Inr ()"
  "validateDate \<lparr> date_obj.year = JStr ''2014'', date_obj.month = JStr ''11'' \<rparr> =
     Inl (ValidationFailed ''validation_failed'' (Some [''InvoiceDateType''])
       (Some ''Invalid date object. Must have a valid month, where 1 == January, and be after 2014''))"
  by (simp_all add: validateDate_def s2n)

lemma demo_admin: "\<not> notAdmin demoAdmin (collective.id' demoUser)"
  "notAdmin \<lparr> remoteUser = None \<rparr> c"
  "notAdmin \<lparr> remoteUser = Some \<lparr> isAdmin = (\<lambda>c. c = 2) \<rparr> \<rparr> (collective.id' demoUser)"
  by (simp_all add: notAdmin_def demoAdmin_def demoUser_def)

lemma demo_parse:
  "dateParse (demoWorld ts) (dateString (JStr ''2017'') (JStr ''10'')) = Some 20171001"
  "dateParse (demoWorld ts) (dateString (JStr ''2017'') (JStr ''11'')) = Some 20171101"
  "dateParse (demoWorld ts) (dateString (JStr ''2016'') (JStr ''11'')) = Some 20161101"
  "dateParse (demoWorld ts) (dateString (JStr ''2014'') (JStr ''11'')) = Some 20141101"
  by (simp_all add: demoWorld_def dateString_def)


lemma permission_message:
  "includes_str ''You don't have permission to access invoices for this user'' ''don't have permission''"
  by simp

text \<open>
  Claim C7 as stated fails for the \<^verbatim>\<open>Invoice\<close> query: the payer resolves and the caller is
  not authenticated, yet the query fails with \<^verbatim>\<open>NotFound\<close>, because the host is looked up
  before the permission is checked.
\<close>

theorem Invoice_unknown_host_before_permission:
  "Collective_findOne (demoWorld demoDonations) ''xdamman'' = Some demoUser
   \<and> notAdmin \<lparr> remoteUser = None \<rparr> (collective.id' demoUser)
   \<and> Invoice (demoWorld demoDonations) (demoRange ''2017'' ''10'' ''2017'' ''11'' ''no-such-host'')
        \<lparr> remoteUser = None \<rparr> = ([], Inl (NotFound ''Host not found''))"
  by (simp add: Invoice_def demo_request demo_dates demo_lookup demo_admin)

text \<open>
  Claim C7, amended. When the payer resolves and the caller is absent or no admin of the
  payer, \<^verbatim>\<open>allInvoices\<close> fails with \<^verbatim>\<open>Unauthorized\<close>, and so does \<^verbatim>\<open>Invoice\<close> once its
  arguments are read, both dates pass \<^verbatim>\<open>validateDate\<close> and the host resolves as well. The
  message holds "don't have permission" and no query is sent to the transaction table.
\<close>

theorem unauthorized_caller:
  assumes "Collective_findOne w s = Some fc" "notAdmin req (collective.id' fc)"
  shows "allInvoices w s req =
           ([], Inl (Unauthorized ''You don't have permission to access invoices for this user''))
         \<and> (\<forall>args i h. invoiceRequest args = Inr i \<and> validateDate (dateFrom i) = Inr ()
               \<and> validateDate (dateTo i) = Inr () \<and> fromCollectiveSlug i = s
               \<and> Collective_findBySlug w (invoice_input.collectiveSlug i) = Some h
             \<longrightarrow> Invoice w args req =
               ([], Inl (Unauthorized ''You don't have permission to access invoices for this user'')))
         \<and> includes_str ''You don't have permission to access invoices for this user''
              ''don't have permission''
         \<and> (notAdmin req (collective.id' fc)
              = (remoteUser req = None
                 \<or> (\<exists>u. remoteUser req = Some u \<and> \<not> isAdmin u (collective.id' fc))))"
proof (intro conjI allI impI)
  show "allInvoices w s req =
           ([], Inl (Unauthorized ''You don't have permission to access invoices for this user''))"
    using assms by (simp add: allInvoices_def)
  show "includes_str ''You don't have permission to access invoices for this user''
              ''don't have permission''" by (rule permission_message)
  show "notAdmin req (collective.id' fc)
              = (remoteUser req = None
                 \<or> (\<exists>u. remoteUser req = Some u \<and> \<not> isAdmin u (collective.id' fc)))"
    by (simp add: notAdmin_def split: option.splits)
next
  fix args i h
  assume "invoiceRequest args = Inr i \<and> validateDate (dateFrom i) = Inr ()
               \<and> validateDate (dateTo i) = Inr () \<and> fromCollectiveSlug i = s
               \<and> Collective_findBySlug w (invoice_input.collectiveSlug i) = Some h"
  then show "Invoice w args req =
               ([], Inl (Unauthorized ''You don't have permission to access invoices for this user''))"
    using assms by (simp add: Invoice_def)
qed

theorem unauthorized_caller_witness:
  "allInvoices (demoWorld demoDonations) ''xdamman'' \<lparr> remoteUser = None \<rparr> =
     ([], Inl (Unauthorized ''You don't have permission to access invoices for this user''))
   \<and> Invoice (demoWorld demoDonations)
        (demoRange ''2017'' ''10'' ''2017'' ''11'' ''brusselstogether-host'')
        \<lparr> remoteUser = None \<rparr> =
     ([], Inl (Unauthorized ''You don't have permission to access invoices for this user''))
   \<and> allInvoices (demoWorld demoDonations) ''xdamman''
        \<lparr> remoteUser = Some \<lparr> isAdmin = (\<lambda>c. c = 2) \<rparr> \<rparr> =
     ([], Inl (Unauthorized ''You don't have permission to access invoices for this user''))"
proof -
  from unauthorized_caller [OF demo_lookup(1) demo_admin(2), of demoDonations]
    unauthorized_caller [OF demo_lookup(1) demo_admin(3), of demoDonations]
  show ?thesis
    using demo_request[of "''2017''" "''10''" "''2017''" "''11''" "''brusselstogether-host''"]
    by (simp add: demo_dates demo_lookup)
qed

subsection \<open>The invoice of a date range\<close>

lemma Invoice_after_permission:
  assumes "invoiceRequest args = Inr i" "validateDate (dateFrom i) = Inr ()"
    "validateDate (dateTo i) = Inr ()"
    "Collective_findOne w (fromCollectiveSlug i) = Some fc"
    "Collective_findBySlug w (invoice_input.collectiveSlug i) = Some h"
    "\<not> notAdmin req (collective.id' fc)"
  shows "Invoice w args req =
     (let startsAt = dateParse w
            (dateString (date_obj.year (dateFrom i)) (date_obj.month (dateFrom i)));
          endsAt = dateParse w
            (dateString (date_obj.year (dateTo i)) (date_obj.month (dateTo i)))
      in if date_lt endsAt startsAt
         then ([], Inl (ValidationFailed ''validation_failed'' (Some [''InvoiceDateType''])
                 (Some ''Invalid date object. dateFrom must be before dateTo'')))
         else
           (case fetchRange w (collective.id' fc) (collective.id' h) startsAt endsAt of
              Inl e \<Rightarrow> ([TransactionFindAll], Inl e)
            | Inr ts \<Rightarrow>
                if length ts = 0
                then ([TransactionFindAll], Inl (NotFound ''No transactions found''))
                else ([TransactionFindAll], Inr (buildInvoice args i fc h ts))))"
  using assms by (simp add: Invoice_def)

lemma fetchRange_error: "fetchRange w a b s e = Inl x \<Longrightarrow> x = DatabaseError"
  by (auto simp: fetchRange_def split: option.splits)

lemma order_message:
  "includes_str ''Invalid date object. dateFrom must be before dateTo''
     ''dateFrom must be before dateTo''"
  "\<not> includes_str
     ''Invalid date object. Must have a valid month, where 1 == January, and be after 2014''
     ''dateFrom must be before dateTo''"
  by simp_all

text \<open>
  Claim C5 as stated fails when an earlier step rejects the request: with \<^verbatim>\<open>dateTo\<close> in
  2014 the end is before the start, and the error is the one of \<^verbatim>\<open>validateDate\<close>, whose
  message does not hold "dateFrom must be before dateTo".
\<close>

theorem Invoice_date_order_counterexample:
  "date_lt (dateParse (demoWorld demoDonations) (dateString (JStr ''2014'') (JStr ''11'')))
           (dateParse (demoWorld demoDonations) (dateString (JStr ''2017'') (JStr ''10'')))
   \<and> Invoice (demoWorld demoDonations)
        (demoRange ''2017'' ''10'' ''2014'' ''11'' ''brusselstogether-host'') demoAdmin =
       ([], Inl (ValidationFailed ''validation_failed'' (Some [''InvoiceDateType''])
         (Some ''Invalid date object. Must have a valid month, where 1 == January, and be after 2014'')))
   \<and> \<not> includes_str
         ''Invalid date object. Must have a valid month, where 1 == January, and be after 2014''
         ''dateFrom must be before dateTo''"
  by (simp add: Invoice_def demo_request demo_dates demo_parse date_lt_def)

text \<open>
  Claim C5, amended. For a request whose arguments are read, whose dates pass
  \<^verbatim>\<open>validateDate\<close>, whose payer and host resolve and whose caller is an admin of the payer:
  the query fails with the validation error "Invalid date object. dateFrom must be before
  dateTo" (the only validation error left, and its message holds "dateFrom must be before
  dateTo") exactly when \<^verbatim>\<open>endsAt < startsAt\<close>, that is when both are valid dates and the
  end is strictly before the start. Equal \<^verbatim>\<open>dateFrom\<close> and \<^verbatim>\<open>dateTo\<close> pass.
\<close>

theorem Invoice_date_order:
  assumes "invoiceRequest args = Inr i" "validateDate (dateFrom i) = Inr ()"
    "validateDate (dateTo i) = Inr ()"
    "Collective_findOne w (fromCollectiveSlug i) = Some fc"
    "Collective_findBySlug w (invoice_input.collectiveSlug i) = Some h"
    "\<not> notAdmin req (collective.id' fc)"
    "startsAt = dateParse w (dateString (date_obj.year (dateFrom i)) (date_obj.month (dateFrom i)))"
    "endsAt = dateParse w (dateString (date_obj.year (dateTo i)) (date_obj.month (dateTo i)))"
  shows "(Invoice w args req =
            ([], Inl (ValidationFailed ''validation_failed'' (Some [''InvoiceDateType''])
                   (Some ''Invalid date object. dateFrom must be before dateTo''))))
           = date_lt endsAt startsAt
         \<and> (\<exists>q ty fs m. Invoice w args req = (q, Inl (ValidationFailed ty fs (Some m)))
               \<and> includes_str m ''dateFrom must be before dateTo'')
           = date_lt endsAt startsAt
         \<and> date_lt endsAt startsAt
           = (\<exists>e s. endsAt = Some e \<and> startsAt = Some s \<and> e < s)
         \<and> (dateTo i = dateFrom i \<longrightarrow> \<not> date_lt endsAt startsAt)"
proof -
  note inv = Invoice_after_permission[OF assms(1-6), folded assms(7,8)]
  have a: "(Invoice w args req =
            ([], Inl (ValidationFailed ''validation_failed'' (Some [''InvoiceDateType''])
                   (Some ''Invalid date object. dateFrom must be before dateTo''))))
           = date_lt endsAt startsAt"
    unfolding inv by (auto simp: Let_def split: sum.splits)
  have b: "(\<exists>q ty fs m. Invoice w args req = (q, Inl (ValidationFailed ty fs (Some m)))
               \<and> includes_str m ''dateFrom must be before dateTo'')
           = date_lt endsAt startsAt"
  proof (cases "date_lt endsAt startsAt")
    case True
    then show ?thesis unfolding inv using order_message(1) by (simp add: Let_def)
  next
    case False
    then show ?thesis unfolding inv
      by (auto simp: Let_def split: sum.splits dest: fetchRange_error)
  qed
  have c: "date_lt endsAt startsAt = (\<exists>e s. endsAt = Some e \<and> startsAt = Some s \<and> e < s)"
    by (auto simp: date_lt_def split: option.splits)
  have d: "(dateTo i = dateFrom i \<longrightarrow> \<not> date_lt endsAt startsAt)"
    using c assms(7,8) by auto
  show ?thesis using a b c d by blast
qed

theorem Invoice_date_order_witness:
  "Invoice (demoWorld demoDonations)
        (demoRange ''2017'' ''10'' ''2016'' ''11'' ''brusselstogether-host'') demoAdmin =
       ([], Inl (ValidationFailed ''validation_failed'' (Some [''InvoiceDateType''])
         (Some ''Invalid date object. dateFrom must be before dateTo'')))
   \<and> Invoice (demoWorld demoDonations)
        (demoRange ''2017'' ''10'' ''2017'' ''10'' ''brusselstogether-host'') demoAdmin \<noteq>
       ([], Inl (ValidationFailed ''validation_failed'' (Some [''InvoiceDateType''])
         (Some ''Invalid date object. dateFrom must be before dateTo'')))"
proof -
  have 1: "date_lt (dateParse (demoWorld demoDonations) (dateString (JStr ''2016'') (JStr ''11'')))
      (dateParse (demoWorld demoDonations) (dateString (JStr ''2017'') (JStr ''10'')))"
    by (simp add: demo_parse date_lt_def)
  have 2: "\<not> date_lt (dateParse (demoWorld demoDonations) (dateString (JStr ''2017'') (JStr ''10'')))
      (dateParse (demoWorld demoDonations) (dateString (JStr ''2017'') (JStr ''10'')))"
    by (simp add: demo_parse date_lt_def)
  from Invoice_date_order [OF demo_request _ _ _ _ demo_admin(1) refl refl,
      of "''2017''" "''10''" "''2016''" "''11''" "''brusselstogether-host''"
         "demoWorld demoDonations" demoHost]
    Invoice_date_order [OF demo_request _ _ _ _ demo_admin(1) refl refl,
      of "''2017''" "''10''" "''2017''" "''10''" "''brusselstogether-host''"
         "demoWorld demoDonations" demoHost]
  show ?thesis using 1 2 by (simp add: demo_dates demo_lookup)
qed

lemma reduce_foldl:
  "foldl (\<lambda>acc t. (Some (hostCurrency t), snd acc + amountInHostCurrency t)) (c, a) ts =
     (if ts = [] then c else Some (hostCurrency (last ts)),
      a + sum_list (map amountInHostCurrency ts))"
  by (induction ts arbitrary: c a) auto

lemma reduceInvoice_eq:
  "reduceInvoice ts =
     (if ts = [] then None else Some (hostCurrency (last ts)),
      sum_list (map amountInHostCurrency ts))"
  by (simp add: reduceInvoice_def reduce_foldl)

lemma buildInvoice_fields:
  assumes "ts \<noteq> []"
  shows "invoice_range.totalAmount (buildInvoice args i fc h ts) =
           sum_list (map amountInHostCurrency ts)"
    and "invoice_range.currency (buildInvoice args i fc h ts) =
           (if hostCurrency (last ts) = [] then collective.currency h
            else hostCurrency (last ts))"
    and "invoice_range.title (buildInvoice args i fc h ts) = invoiceTitle (Some h)"
    and "invoice_range.transactions (buildInvoice args i fc h ts) = ts"
    and "invoice_range.HostCollectiveId (buildInvoice args i fc h ts) = collective.id' h"
    and "invoice_range.FromCollectiveId (buildInvoice args i fc h ts) = collective.id' fc"
  using assms by (simp_all add: buildInvoice_def reduceInvoice_eq Let_def)

lemma demo_fetch:
  "Transaction_findAll (demoWorld demoDonations)
     (\<lambda>t. fromOrVirtualCard 3 t \<and> transaction.HostCollectiveId t = 2
          \<and> 20171001 \<le> createdAt t \<and> createdAt t < 20171101 \<and> type' t = CREDIT)
   = [demoCredit 2 20171005 1000 ''EUR'', demoCredit 3 20171025 500 ''EUR'']"
  by (simp add: Transaction_findAll_def demoWorld_def demoDonations_def demoCredit_def
      fromOrVirtualCard_def)

text \<open>
  Claim C4 as stated fails on the currency: a fetched transaction with an empty
  \<^verbatim>\<open>hostCurrency\<close> makes the invoice take the currency of the host, so the default is
  reached although a transaction was fetched.
\<close>

theorem Invoice_currency_fallback_reached:
  "Invoice (demoWorld [demoCredit 2 20171005 1000 ''''])
        (demoRange ''2017'' ''10'' ''2017'' ''11'' ''brusselstogether-host'') demoAdmin =
     ([TransactionFindAll],
      Inr \<lparr> invoice_range.title = ''Donation Receipt'',
            invoice_range.HostCollectiveId = 2, invoice_range.FromCollectiveId = 3,
            invoice_range.slug = None,
            invoice_range.yearFrom = JStr ''2017'', invoice_range.monthFrom = JStr ''10'',
            yearTo = JStr ''2017'', monthTo = JStr ''11'',
            invoice_range.totalAmount = 1000,
            invoice_range.currency = ''EUR'',
            invoice_range.transactions = [demoCredit 2 20171005 1000 ''''] \<rparr>)
   \<and> hostCurrency (demoCredit 2 20171005 1000 '''') = ''''
   \<and> collective.currency demoHost = ''EUR''"
proof -
  let ?t = "demoCredit 2 20171005 1000 ''''"
  let ?i = "\<lparr> dateFrom = \<lparr> date_obj.year = JStr ''2017'', date_obj.month = JStr ''10'' \<rparr>,
           dateTo = \<lparr> date_obj.year = JStr ''2017'', date_obj.month = JStr ''11'' \<rparr>,
           invoice_input.collectiveSlug = ''brusselstogether-host'',
           fromCollectiveSlug = ''xdamman'' \<rparr>"
  have ids: "collective.id' demoUser = 3" "collective.id' demoHost = 2"
    "settings_invoiceTitle demoHost = None" "collective.currency demoHost = ''EUR''"
    by (simp_all add: demoUser_def demoHost_def)
  have f: "fetchRange (demoWorld [?t]) 3 2 (Some 20171001) (Some 20171101) = Inr [?t]"
    by (simp add: fetchRange_def Transaction_findAll_def demoWorld_def demoCredit_def
        fromOrVirtualCard_def)
  have b: "buildInvoice (demoRange ''2017'' ''10'' ''2017'' ''11'' ''brusselstogether-host'')
             ?i demoUser demoHost [?t] =
      \<lparr> invoice_range.title = ''Donation Receipt'',
            invoice_range.HostCollectiveId = 2, invoice_range.FromCollectiveId = 3,
            invoice_range.slug = None,
            invoice_range.yearFrom = JStr ''2017'', invoice_range.monthFrom = JStr ''10'',
            yearTo = JStr ''2017'', monthTo = JStr ''11'',
            invoice_range.totalAmount = 1000,
            invoice_range.currency = ''EUR'',
            invoice_range.transactions = [?t] \<rparr>"
    by (simp add: buildInvoice_def reduceInvoice_def invoiceTitle_def ids demoRange_def
        demoCredit_def)
  have inv: "Invoice (demoWorld [?t])
        (demoRange ''2017'' ''10'' ''2017'' ''11'' ''brusselstogether-host'') demoAdmin =
     ([TransactionFindAll], Inr (buildInvoice
        (demoRange ''2017'' ''10'' ''2017'' ''11'' ''brusselstogether-host'')
        ?i demoUser demoHost [?t]))"
    by (subst Invoice_after_permission [OF demo_request _ _ _ _ demo_admin(1), of _ _ _ _ _ _ demoHost])
       (simp_all add: demo_dates demo_lookup demo_parse date_lt_def ids f)
  show ?thesis unfolding inv b by (simp add: ids demoCredit_def)
qed

text \<open>
  Claim C4, amended. For a request that passes the validation of its dates, the
  resolution of payer and host, the permission check and the order check, with valid
  start and end: when the fetch returns no transaction the query fails with \<^verbatim>\<open>NotFound\<close>;
  otherwise it returns one invoice with the fetched transactions, their summed
  \<^verbatim>\<open>amountInHostCurrency\<close> as total, as currency the \<^verbatim>\<open>hostCurrency\<close> of the last fetched
  transaction when that is not empty and the currency of the host when it is (so the
  common non-empty \<^verbatim>\<open>hostCurrency\<close> when the transactions share one), and as title
  \<^verbatim>\<open>settings.invoiceTitle\<close> of the host when present and not empty, else "Donation
  Receipt".
\<close>

theorem Invoice_range_result:
  assumes "invoiceRequest args = Inr i" "validateDate (dateFrom i) = Inr ()"
    "validateDate (dateTo i) = Inr ()"
    "Collective_findOne w (fromCollectiveSlug i) = Some fc"
    "Collective_findBySlug w (invoice_input.collectiveSlug i) = Some h"
    "\<not> notAdmin req (collective.id' fc)"
    "dateParse w (dateString (date_obj.year (dateFrom i)) (date_obj.month (dateFrom i))) = Some s"
    "dateParse w (dateString (date_obj.year (dateTo i)) (date_obj.month (dateTo i))) = Some e"
    "\<not> e < s"
    "ts = Transaction_findAll w
            (\<lambda>t. fromOrVirtualCard (collective.id' fc) t
                 \<and> transaction.HostCollectiveId t = collective.id' h
                 \<and> s \<le> createdAt t \<and> createdAt t < e \<and> type' t = CREDIT)"
  shows "(ts = [] \<longrightarrow>
            Invoice w args req = ([TransactionFindAll], Inl (NotFound ''No transactions found'')))
         \<and> (ts \<noteq> [] \<longrightarrow>
            (\<exists>inv. Invoice w args req = ([TransactionFindAll], Inr inv)
               \<and> invoice_range.transactions inv = ts
               \<and> invoice_range.totalAmount inv = sum_list (map amountInHostCurrency ts)
               \<and> invoice_range.currency inv =
                   (if hostCurrency (last ts) = [] then collective.currency h
                    else hostCurrency (last ts))
               \<and> (\<forall>c. c \<noteq> [] \<and> (\<forall>t \<in> set ts. hostCurrency t = c)
                      \<longrightarrow> invoice_range.currency inv = c)
               \<and> invoice_range.title inv =
                   (case settings_invoiceTitle h of
                      None \<Rightarrow> ''Donation Receipt''
                    | Some t \<Rightarrow> if t = [] then ''Donation Receipt'' else t)))"
proof -
  have nlt: "\<not> date_lt (Some e) (Some s)" using assms(9) by (simp add: date_lt_def)
  have fr: "fetchRange w (collective.id' fc) (collective.id' h) (Some s) (Some e) = Inr ts"
    by (simp add: fetchRange_def assms(10))
  have inv: "Invoice w args req =
      (if length ts = 0 then ([TransactionFindAll], Inl (NotFound ''No transactions found''))
       else ([TransactionFindAll], Inr (buildInvoice args i fc h ts)))"
    unfolding Invoice_after_permission[OF assms(1-6)] assms(7,8) Let_def
    using nlt by (simp add: fr)
  show ?thesis
  proof (cases "ts = []")
    case True
    then show ?thesis by (simp add: inv)
  next
    case False
    have last: "last ts \<in> set ts" using False by simp
    have "Invoice w args req = ([TransactionFindAll], Inr (buildInvoice args i fc h ts))"
      using False by (simp add: inv)
    then show ?thesis
      using False last by (auto simp: buildInvoice_fields invoiceTitle_def)
  qed
qed

theorem Invoice_range_result_witness:
  "\<exists>inv. Invoice (demoWorld demoDonations)
            (demoRange ''2017'' ''10'' ''2017'' ''11'' ''brusselstogether-host'') demoAdmin =
          ([TransactionFindAll], Inr inv)
     \<and> invoice_range.transactions inv =
         [demoCredit 2 20171005 1000 ''EUR'', demoCredit 3 20171025 500 ''EUR'']
     \<and> invoice_range.totalAmount inv = 1500
     \<and> invoice_range.currency inv = ''EUR''
     \<and> invoice_range.title inv = ''Donation Receipt''"
proof -
  have ids: "collective.id' demoUser = 3" "collective.id' demoHost = 2"
    "settings_invoiceTitle demoHost = None"
    by (simp_all add: demoUser_def demoHost_def)
  have amt: "amountInHostCurrency (demoCredit n d a c) = a"
    "hostCurrency (demoCredit n d a c) = c" for n d a c
    by (simp_all add: demoCredit_def)
  from Invoice_range_result [OF demo_request _ _ _ _ demo_admin(1) _ _ _ refl,
      of "''2017''" "''10''" "''2017''" "''11''" "''brusselstogether-host''"
         "demoWorld demoDonations" demoHost 20171001 20171101]
  show ?thesis
    by (simp add: demo_dates demo_lookup demo_parse ids demo_fetch amt)
qed

subsection \<open>The monthly invoices of a payer\<close>

lemma mapper_found:
  assumes "\<And>k h. hb k = Some h \<Longrightarrow> Collective_findByPk w k = Some h"
    and "Collective_findByPk w (transaction.HostCollectiveId t) = Some h"
  shows "mapper w fc (hb, al) t =
           Inr (hb(transaction.HostCollectiveId t \<mapsto> h), storeAdd w fc al t)"
proof (cases "hb (transaction.HostCollectiveId t)")
  case None
  then show ?thesis using assms(2) by (simp add: mapper_def storeAdd_def)
next
  case (Some h')
  then have "h' = h" using assms by fastforce
  then show ?thesis using Some assms(2) by (simp add: mapper_def storeAdd_def)
qed

lemma mapper_missing:
  assumes "\<And>k h. hb k = Some h \<Longrightarrow> Collective_findByPk w k = Some h"
    and "Collective_findByPk w (transaction.HostCollectiveId t) = None"
  shows "mapper w fc (hb, al) t = Inl TypeError"
proof (cases "hb (transaction.HostCollectiveId t)")
  case None
  then show ?thesis using assms(2) by (simp add: mapper_def)
next
  case (Some h')
  then show ?thesis using assms by fastforce
qed

lemma mapSeries_ok:
  assumes "\<And>k h. hb k = Some h \<Longrightarrow> Collective_findByPk w k = Some h"
    and "\<forall>t \<in> set xs. Collective_findByPk w (transaction.HostCollectiveId t) \<noteq> None"
  shows "\<exists>hb'. mapSeries (mapper w fc) (hb, al) xs = Inr (hb', foldl (storeAdd w fc) al xs)"
  using assms
proof (induction xs arbitrary: hb al)
  case Nil
  then show ?case by simp
next
  case (Cons t xs)
  from Cons.prems(2) obtain h where h: "Collective_findByPk w (transaction.HostCollectiveId t) = Some h"
    by auto
  have m: "mapper w fc (hb, al) t =
      Inr (hb(transaction.HostCollectiveId t \<mapsto> h), storeAdd w fc al t)"
    using Cons.prems(1) h by (rule mapper_found)
  have c: "\<And>k h'. (hb(transaction.HostCollectiveId t \<mapsto> h)) k = Some h' \<Longrightarrow>
      Collective_findByPk w k = Some h'"
    using Cons.prems(1) h by (auto split: if_splits)
  have rest: "\<forall>t \<in> set xs. Collective_findByPk w (transaction.HostCollectiveId t) \<noteq> None"
    using Cons.prems(2) by simp
  have step: "mapSeries (mapper w fc) (hb, al) (t # xs) =
      mapSeries (mapper w fc) (hb(transaction.HostCollectiveId t \<mapsto> h), storeAdd w fc al t) xs"
    by (simp add: m)
  show ?case unfolding step foldl_Cons
    by (rule Cons.IH[of "hb(transaction.HostCollectiveId t \<mapsto> h)", OF c rest])
qed

lemma mapSeries_fail:
  assumes "\<And>k h. hb k = Some h \<Longrightarrow> Collective_findByPk w k = Some h"
    and "\<exists>t \<in> set xs. Collective_findByPk w (transaction.HostCollectiveId t) = None"
  shows "mapSeries (mapper w fc) (hb, al) xs = Inl TypeError"
  using assms
proof (induction xs arbitrary: hb al)
  case Nil
  then show ?case by simp
next
  case (Cons t xs)
  show ?case
  proof (cases "Collective_findByPk w (transaction.HostCollectiveId t)")
    case None
    then show ?thesis using mapper_missing[OF Cons.prems(1)] by simp
  next
    case (Some h)
    have m: "mapper w fc (hb, al) t =
        Inr (hb(transaction.HostCollectiveId t \<mapsto> h), storeAdd w fc al t)"
      using Cons.prems(1) Some by (rule mapper_found)
    have c: "\<And>k h'. (hb(transaction.HostCollectiveId t \<mapsto> h)) k = Some h' \<Longrightarrow>
        Collective_findByPk w k = Some h'"
      using Cons.prems(1) Some by (auto split: if_splits)
    have "\<exists>t \<in> set xs. Collective_findByPk w (transaction.HostCollectiveId t) = None"
      using Cons.prems(2) Some by auto
    note rest = this
    have step: "mapSeries (mapper w fc) (hb, al) (t # xs) =
        mapSeries (mapper w fc) (hb(transaction.HostCollectiveId t \<mapsto> h), storeAdd w fc al t) xs"
      by (simp add: m)
    show ?thesis unfolding step
      by (rule Cons.IH[of "hb(transaction.HostCollectiveId t \<mapsto> h)", OF c rest])
  qed
qed

lemma storeAdd_found:
  assumes "Collective_findByPk w (transaction.HostCollectiveId t) \<noteq> None"
  shows "storeAdd w fc al t =
     AList.update (storeKey w fc t)
       \<lparr> invoice_summary.HostCollectiveId = transaction.HostCollectiveId t,
         invoice_summary.FromCollectiveId = collective.id' fc,
         invoice_summary.slug = storeKey w fc t,
         invoice_summary.year = getFullYear w (createdAt t),
         invoice_summary.month = getMonth w (createdAt t) + 1,
         invoice_summary.totalAmount =
           (case map_of al (storeKey w fc t) of
              Some i \<Rightarrow> invoice_summary.totalAmount i + amountInHostCurrency t
            | None \<Rightarrow> amountInHostCurrency t),
         invoice_summary.currency = hostCurrency t \<rparr> al"
  using assms
  by (auto simp: storeAdd_def addInvoice_def keyOf_def storeKey_def hostSlugOf_def Let_def)

lemma fold_groups:
  assumes "\<forall>t \<in> set xs. Collective_findByPk w (transaction.HostCollectiveId t) \<noteq> None"
  shows "(\<forall>k. map_of (foldl (storeAdd w fc) [] xs) k = groupOf w fc k xs)
         \<and> distinct (map fst (foldl (storeAdd w fc) [] xs))"
  using assms
proof (induction xs rule: rev_induct)
  case Nil
  then show ?case by (simp add: groupOf_def)
next
  case (snoc t xs)
  let ?al = "foldl (storeAdd w fc) [] xs"
  have pre: "\<forall>t \<in> set xs. Collective_findByPk w (transaction.HostCollectiveId t) \<noteq> None"
    using snoc.prems by simp
  have ih: "map_of ?al k' = groupOf w fc k' xs" for k'
    using snoc.IH[OF pre] by simp
  have d: "distinct (map fst ?al)" using snoc.IH[OF pre] by simp
  have f: "Collective_findByPk w (transaction.HostCollectiveId t) \<noteq> None" using snoc.prems by simp
  have g: "map_of (foldl (storeAdd w fc) [] (xs @ [t])) k = groupOf w fc k (xs @ [t])" for k
  proof (cases "storeKey w fc t = k")
    case False
    then show ?thesis
      by (simp add: storeAdd_found[OF f] update_conv' ih groupOf_def)
  next
    case True
    show ?thesis
    proof (cases "filter (\<lambda>t. storeKey w fc t = k) xs")
      case Nil
      then show ?thesis using True
        by (simp add: storeAdd_found[OF f] update_conv' ih[of k] groupOf_def)
    next
      case (Cons a g)
      then show ?thesis using True
        by (simp add: storeAdd_found[OF f] update_conv' ih[of k] groupOf_def)
    qed
  qed
  have "distinct (map fst (foldl (storeAdd w fc) [] (xs @ [t])))"
    using d by (simp add: storeAdd_found[OF f] distinct_update)
  then show ?case using g by blast
qed

lemma digitsOf_inj: "digitsOf a = digitsOf b \<Longrightarrow> a = b"
  by (metis digitsValue_digitsOf)

lemma hd_digitsOf: "isDigit (hd (digitsOf n))"
  using isDigit_digitsOf[of n] digitsOf_nonempty[of n] by (cases "digitsOf n") auto

lemma NumberToString_inj:
  assumes "\<bar>y1\<bar> < 10 ^ 21" "\<bar>y2\<bar> < 10 ^ 21"
    and "NumberToString (Fin y1 0) = NumberToString (Fin y2 0)"
  shows "y1 = y2"
proof -
  have neg: "CHR ''-'' # digitsOf a \<noteq> digitsOf b" for a b
    using hd_digitsOf[of b] by (metis list.sel(1) not_isDigit_special(2))
  have eq: "(if y1 < 0 then CHR ''-'' # digitsOf (nat (- y1)) else digitsOf (nat y1)) =
      (if y2 < 0 then CHR ''-'' # digitsOf (nat (- y2)) else digitsOf (nat y2))"
    using assms by (simp add: NumberToString_int)
  show ?thesis
  proof (cases "y1 < 0"; cases "y2 < 0")
    assume a: "y1 < 0" "y2 < 0"
    then have "nat (- y1) = nat (- y2)" using eq by (auto dest: digitsOf_inj)
    then show ?thesis using a by simp
  next
    assume a: "y1 < 0" "\<not> y2 < 0"
    then show ?thesis using eq neg by simp
  next
    assume a: "\<not> y1 < 0" "y2 < 0"
    then show ?thesis using eq neg[of "nat (- y2)" "nat y1"] by simp
  next
    assume a: "\<not> y1 < 0" "\<not> y2 < 0"
    then have "nat y1 = nat y2" using eq by (auto dest: digitsOf_inj)
    then show ?thesis using a by simp
  qed
qed

lemma no_dot_digits: "list_all isDigit ds \<Longrightarrow> CHR ''.'' \<notin> set ds"
  by (auto simp: list_all_iff)

lemma no_dot_year: "\<bar>y\<bar> < 10 ^ 21 \<Longrightarrow> CHR ''.'' \<notin> set (NumberToString (Fin y 0))"
  using no_dot_digits[OF isDigit_digitsOf] by (simp add: NumberToString_int)

lemma split_at_first:
  assumes "c \<notin> set a" "c \<notin> set a'" "a @ c # b = a' @ c # b'"
  shows "a = a' \<and> b = b'"
proof -
  have t: "takeWhile (\<lambda>x. x \<noteq> c) (p @ c # q) = p" if "c \<notin> set p" for p q :: "'a list"
  proof -
    have "takeWhile (\<lambda>x. x \<noteq> c) (p @ c # q) = takeWhile (\<lambda>x. x \<noteq> c) p"
      by (rule takeWhile_tail) simp
    also have "\<dots> = p" using that by (auto simp: takeWhile_eq_all_conv)
    finally show ?thesis .
  qed
  have "a = a'" using t[OF assms(1), of b] t[OF assms(2), of b'] assms(3) by metis
  then show ?thesis using assms(3) by simp
qed

lemma slugOf_inj:
  assumes "\<bar>y1\<bar> < 10 ^ 21" "\<bar>y2\<bar> < 10 ^ 21" "m1 \<le> 99" "m2 \<le> 99"
    and "slugOf y1 m1 h1 f = slugOf y2 m2 h2 f"
  shows "y1 = y2 \<and> m1 = m2 \<and> h1 = h2"
proof -
  let ?Y1 = "NumberToString (Fin y1 0)" and ?Y2 = "NumberToString (Fin y2 0)"
  let ?M1 = "month2digit m1" and ?M2 = "month2digit m2"
  have s1: "slugOf y1 m1 h1 f = ((?Y1 @ ?M1) @ CHR ''.'' # h1) @ (CHR ''.'' # f)"
    by (simp add: slugOf_def)
  have s2: "slugOf y2 m2 h2 f = ((?Y2 @ ?M2) @ CHR ''.'' # h2) @ (CHR ''.'' # f)"
    by (simp add: slugOf_def)
  have e0: "((?Y1 @ ?M1) @ CHR ''.'' # h1) @ (CHR ''.'' # f) =
      ((?Y2 @ ?M2) @ CHR ''.'' # h2) @ (CHR ''.'' # f)"
    using assms(5) unfolding s1 s2 .
  have e: "(?Y1 @ ?M1) @ CHR ''.'' # h1 = (?Y2 @ ?M2) @ CHR ''.'' # h2"
    using e0 by (rule iffD1[OF append_same_eq])
  have d1: "CHR ''.'' \<notin> set (?Y1 @ ?M1)"
    using no_dot_year[OF assms(1)] no_dot_digits[OF month2digit_digits[OF assms(3)]] by simp
  have d2: "CHR ''.'' \<notin> set (?Y2 @ ?M2)"
    using no_dot_year[OF assms(2)] no_dot_digits[OF month2digit_digits[OF assms(4)]] by simp
  have "(?Y1 @ ?M1 = ?Y2 @ ?M2) \<and> h1 = h2"
    using d1 d2 e by (rule split_at_first)
  then have p: "?Y1 @ ?M1 = ?Y2 @ ?M2" and h: "h1 = h2" by simp_all
  have lm: "length ?M1 = length ?M2"
    using month2digit_length[OF assms(3)] month2digit_length[OF assms(4)] by simp
  have ym: "?Y1 = ?Y2 \<and> ?M1 = ?M2"
    using p by (rule iffD1[OF append_eq_append_conv[OF disjI2[OF lm]]])
  have y: "y1 = y2" by (rule NumberToString_inj[OF assms(1,2) conjunct1[OF ym]])
  have "digitsValue ?M1 = digitsValue ?M2" by (rule arg_cong[OF conjunct2[OF ym]])
  then have m: "m1 = m2"
    unfolding month2digit_value[OF assms(3)] month2digit_value[OF assms(4)] .
  show ?thesis using y m h by blast
qed

lemma findByPk_Some:
  "Collective_findByPk w k = Some h \<Longrightarrow> h \<in> set (collectives w) \<and> collective.id' h = k"
  by (auto simp: Collective_findByPk_def find_Some_iff)

lemma storeKey_monthHost:
  "monthHostOf w t1 = monthHostOf w t2 \<Longrightarrow> storeKey w fc t1 = storeKey w fc t2"
  by (simp add: monthHostOf_def storeKey_def)

lemma storeKey_inj:
  assumes "inj_on collective.slug (set (collectives w))"
    and "Collective_findByPk w (transaction.HostCollectiveId t1) \<noteq> None"
    and "Collective_findByPk w (transaction.HostCollectiveId t2) \<noteq> None"
    and "getMonth w (createdAt t1) < 12" "\<bar>getFullYear w (createdAt t1)\<bar> \<le> 275760"
    and "getMonth w (createdAt t2) < 12" "\<bar>getFullYear w (createdAt t2)\<bar> \<le> 275760"
    and "storeKey w fc t1 = storeKey w fc t2"
  shows "monthHostOf w t1 = monthHostOf w t2"
proof -
  obtain h1 h2 where h1: "Collective_findByPk w (transaction.HostCollectiveId t1) = Some h1"
    and h2: "Collective_findByPk w (transaction.HostCollectiveId t2) = Some h2"
    using assms(2,3) by auto
  have b: "\<bar>getFullYear w (createdAt t1)\<bar> < 10 ^ 21" "\<bar>getFullYear w (createdAt t2)\<bar> < 10 ^ 21"
    "getMonth w (createdAt t1) + 1 \<le> 99" "getMonth w (createdAt t2) + 1 \<le> 99"
    using assms(4-7) by simp_all
  have k: "slugOf (getFullYear w (createdAt t1)) (getMonth w (createdAt t1) + 1)
             (collective.slug h1) (collective.slug fc) =
           slugOf (getFullYear w (createdAt t2)) (getMonth w (createdAt t2) + 1)
             (collective.slug h2) (collective.slug fc)"
    using assms(8) unfolding storeKey_def hostSlugOf_def h1 h2 by simp
  note e = slugOf_inj[OF b k]
  have r1: "h1 \<in> set (collectives w)" "collective.id' h1 = transaction.HostCollectiveId t1"
    using findByPk_Some[OF h1] by simp_all
  have r2: "h2 \<in> set (collectives w)" "collective.id' h2 = transaction.HostCollectiveId t2"
    using findByPk_Some[OF h2] by simp_all
  from e have se: "collective.slug h1 = collective.slug h2" by blast
  have "h1 = h2" by (rule inj_onD[OF assms(1) se r1(1) r2(1)])
  then have "transaction.HostCollectiveId t1 = transaction.HostCollectiveId t2"
    using r1(2) r2(2) by simp
  moreover from e have "getFullYear w (createdAt t1) = getFullYear w (createdAt t2)" by blast
  moreover from e have "getMonth w (createdAt t1) + 1 = getMonth w (createdAt t2) + 1" by blast
  ultimately show ?thesis unfolding monthHostOf_def by simp
qed

lemma groupOf_Some:
  assumes "groupOf w fc k xs = Some i"
  shows "\<exists>t \<in> set xs. storeKey w fc t = k \<and> monthHost i = monthHostOf w t"
    and "invoice_summary.slug i = k"
    and "invoice_summary.totalAmount i =
           sum_list (map amountInHostCurrency (filter (\<lambda>t. storeKey w fc t = k) xs))"
proof -
  let ?g = "filter (\<lambda>t. storeKey w fc t = k) xs"
  have ne: "?g \<noteq> []" using assms by (auto simp: groupOf_def split: list.splits)
  then have l: "last ?g \<in> set ?g" by (rule last_in_set)
  have i: "i = \<lparr> invoice_summary.HostCollectiveId = transaction.HostCollectiveId (last ?g),
                 invoice_summary.FromCollectiveId = collective.id' fc,
                 invoice_summary.slug = k,
                 invoice_summary.year = getFullYear w (createdAt (last ?g)),
                 invoice_summary.month = getMonth w (createdAt (last ?g)) + 1,
                 invoice_summary.totalAmount = sum_list (map amountInHostCurrency ?g),
                 invoice_summary.currency = hostCurrency (last ?g) \<rparr>"
    using assms by (auto simp: groupOf_def split: list.splits)
  show "\<exists>t \<in> set xs. storeKey w fc t = k \<and> monthHost i = monthHostOf w t"
    using l by (intro bexI[of _ "last ?g"]) (simp_all add: i monthHost_def monthHostOf_def)
  show "invoice_summary.slug i = k" by (simp add: i)
  show "invoice_summary.totalAmount i = sum_list (map amountInHostCurrency ?g)" by (simp add: i)
qed

lemma groupOf_member:
  assumes "t \<in> set xs"
  shows "\<exists>i. groupOf w fc (storeKey w fc t) xs = Some i"
proof -
  have "t \<in> set (filter (\<lambda>u. storeKey w fc u = storeKey w fc t) xs)" using assms by simp
  then have "filter (\<lambda>u. storeKey w fc u = storeKey w fc t) xs \<noteq> []" by force
  then show ?thesis by (simp add: groupOf_def split: list.splits)
qed

lemma mset_insertBy: "mset (insertBy cmp x ys) = add_mset x (mset ys)"
  by (induction ys) auto

lemma mset_sortBy: "mset (sortBy cmp xs) = mset xs"
  by (induction xs) (auto simp: sortBy_def mset_insertBy)

lemma set_sortBy: "set (sortBy cmp xs) = set xs"
  by (metis mset_sortBy set_mset_mset)

lemma sorted_insertBy:
  assumes "sorted_wrt (\<lambda>a b. invoice_summary.slug b \<le> invoice_summary.slug a) ys"
  shows "sorted_wrt (\<lambda>a b. invoice_summary.slug b \<le> invoice_summary.slug a)
           (insertBy compareInvoices x ys)"
  using assms
proof (induction ys)
  case Nil
  then show ?case by simp
next
  case (Cons y ys)
  have s: "set (insertBy compareInvoices x ys) = insert x (set ys)"
    by (metis mset_insertBy set_mset_add_mset_insert set_mset_mset)
  show ?case
  proof (cases "compareInvoices x y \<le> 0")
    case True
    then have "invoice_summary.slug y < invoice_summary.slug x"
      by (simp add: compareInvoices_def split: if_splits)
    then show ?thesis using True Cons.prems by (auto intro: order.trans less_imp_le)
  next
    case False
    then have "invoice_summary.slug x \<le> invoice_summary.slug y"
      by (simp add: compareInvoices_def split: if_splits)
    then show ?thesis using False Cons by (auto simp: s)
  qed
qed

lemma sorted_sortBy:
  "sorted_wrt (\<lambda>a b. invoice_summary.slug b \<le> invoice_summary.slug a)
     (sortBy compareInvoices xs)"
  by (induction xs) (simp_all add: sortBy_def sorted_insertBy)

lemma allInvoices_authorized:
  assumes "Collective_findOne w s = Some fc" "\<not> notAdmin req (collective.id' fc)"
  shows "allInvoices w s req =
           ([TransactionFindAll],
            case mapSeries (mapper w fc) (Map.empty, []) (completionOrder w (creditsOf w fc)) of
              Inl e \<Rightarrow> Inl e
            | Inr st \<Rightarrow> Inr (sortBy compareInvoices (map snd (snd st))))"
  using assms by (simp add: allInvoices_def creditsOf_def)

lemma allInvoices_result:
  assumes "Collective_findOne w s = Some fc" "\<not> notAdmin req (collective.id' fc)"
    and "\<forall>t \<in> set (completionOrder w (creditsOf w fc)).
           Collective_findByPk w (transaction.HostCollectiveId t) \<noteq> None"
  shows "allInvoices w s req =
           ([TransactionFindAll],
            Inr (sortBy compareInvoices
                  (map snd (foldl (storeAdd w fc) [] (completionOrder w (creditsOf w fc))))))"
proof -
  have "\<And>k h. Map.empty k = Some h \<Longrightarrow> Collective_findByPk w k = Some h" by simp
  from mapSeries_ok[where hb = Map.empty and fc = fc and al = "[]", OF this assms(3)]
  obtain hb' where "mapSeries (mapper w fc) (Map.empty, []) (completionOrder w (creditsOf w fc)) =
      Inr (hb', foldl (storeAdd w fc) [] (completionOrder w (creditsOf w fc)))" by blast
  then show ?thesis by (simp add: allInvoices_authorized[OF assms(1,2)])
qed

text \<open>
  A fetched credit whose host is not in the store makes the whole query throw: the read
  of \<^verbatim>\<open>slug\<close> on the missing host is not guarded, unlike the host lookup of \<^verbatim>\<open>Invoice\<close>.
\<close>

lemma allInvoices_missing_host:
  assumes "Collective_findOne w s = Some fc" "\<not> notAdmin req (collective.id' fc)"
    and "\<exists>t \<in> set (completionOrder w (creditsOf w fc)).
           Collective_findByPk w (transaction.HostCollectiveId t) = None"
  shows "allInvoices w s req = ([TransactionFindAll], Inl TypeError)"
proof -
  have "\<And>k h. Map.empty k = Some h \<Longrightarrow> Collective_findByPk w k = Some h" by simp
  from mapSeries_fail[where hb = Map.empty and fc = fc and al = "[]", OF this assms(3)]
  show ?thesis by (simp add: allInvoices_authorized[OF assms(1,2)])
qed

lemma allInvoices_Inr:
  assumes "allInvoices w s req = (q, Inr invs)"
  shows "\<exists>fc. Collective_findOne w s = Some fc \<and> \<not> notAdmin req (collective.id' fc)
           \<and> (\<forall>t \<in> set (completionOrder w (creditsOf w fc)).
                 Collective_findByPk w (transaction.HostCollectiveId t) \<noteq> None)
           \<and> invs = sortBy compareInvoices
                 (map snd (foldl (storeAdd w fc) [] (completionOrder w (creditsOf w fc))))"
proof (cases "Collective_findOne w s")
  case None
  then show ?thesis using assms by (simp add: allInvoices_def)
next
  case (Some fc)
  show ?thesis
  proof (cases "notAdmin req (collective.id' fc)")
    case True
    then show ?thesis using assms Some by (simp add: allInvoices_def)
  next
    case False
    show ?thesis
    proof (cases "\<forall>t \<in> set (completionOrder w (creditsOf w fc)).
           Collective_findByPk w (transaction.HostCollectiveId t) \<noteq> None")
      case True
      then show ?thesis using assms Some False allInvoices_result[OF Some False True] by simp
    next
      case f: False
      then have "\<exists>t \<in> set (completionOrder w (creditsOf w fc)).
           Collective_findByPk w (transaction.HostCollectiveId t) = None" by simp
      from allInvoices_missing_host[OF Some False this] show ?thesis using assms by simp
    qed
  qed
qed

lemma sum_filter_perm:
  assumes "mset xs = mset ys"
  shows "sum_list (map f (filter P xs)) = (sum_list (map f (filter P ys)) :: int)"
proof -
  have "mset (map f (filter P xs)) = mset (map f (filter P ys))" using assms by simp
  then have "sum_mset (mset (map f (filter P xs))) = sum_mset (mset (map f (filter P ys)))"
    by (rule arg_cong)
  then show ?thesis by (simp only: sum_mset_sum_list)
qed

lemma entries_of_groups:
  assumes "\<forall>t \<in> set xs. Collective_findByPk w (transaction.HostCollectiveId t) \<noteq> None"
  shows "((k, i) \<in> set (foldl (storeAdd w fc) [] xs)) = (groupOf w fc k xs = Some i)"
proof -
  have d: "distinct (map fst (foldl (storeAdd w fc) [] xs))"
    and g: "map_of (foldl (storeAdd w fc) [] xs) k = groupOf w fc k xs"
    using fold_groups[OF assms, of fc] by simp_all
  show ?thesis using map_of_eq_Some_iff[OF d, of k i] g by simp
qed

text \<open>The entries before the sort, for a pass over the transactions in any order.\<close>

lemma entries_distinct:
  assumes "\<forall>t \<in> set xs. Collective_findByPk w (transaction.HostCollectiveId t) \<noteq> None"
  shows "distinct (map monthHost (map snd (foldl (storeAdd w fc) [] xs)))"
proof -
  let ?al = "foldl (storeAdd w fc) [] xs"
  note e = entries_of_groups[OF assms, of _ _ fc]
  have d: "distinct ?al" using fold_groups[OF assms, of fc] by (metis distinct_map)
  have "inj_on (monthHost \<circ> snd) (set ?al)"
  proof (rule inj_onI)
    fix a b assume a: "a \<in> set ?al" and b: "b \<in> set ?al"
      and m: "(monthHost \<circ> snd) a = (monthHost \<circ> snd) b"
    have ga: "groupOf w fc (fst a) xs = Some (snd a)" using a e[of "fst a" "snd a"] by simp
    have gb: "groupOf w fc (fst b) xs = Some (snd b)" using b e[of "fst b" "snd b"] by simp
    from groupOf_Some(1)[OF ga] obtain ta where ta: "storeKey w fc ta = fst a"
      "monthHost (snd a) = monthHostOf w ta" by blast
    from groupOf_Some(1)[OF gb] obtain tb where tb: "storeKey w fc tb = fst b"
      "monthHost (snd b) = monthHostOf w tb" by blast
    have "monthHostOf w ta = monthHostOf w tb" using m ta(2) tb(2) by simp
    then have "fst a = fst b" using storeKey_monthHost[of w ta tb fc] ta(1) tb(1) by simp
    then have "snd a = snd b" using ga gb by simp
    then show "a = b" using \<open>fst a = fst b\<close> by (simp add: prod_eq_iff)
  qed
  then show ?thesis using d by (simp add: distinct_map)
qed

lemma entries_cover:
  assumes "\<forall>t \<in> set xs. Collective_findByPk w (transaction.HostCollectiveId t) \<noteq> None"
    and "inj_on collective.slug (set (collectives w))"
    and "\<forall>t \<in> set xs. getMonth w (createdAt t) < 12 \<and> \<bar>getFullYear w (createdAt t)\<bar> \<le> 275760"
  shows "set (map monthHost (map snd (foldl (storeAdd w fc) [] xs))) = set (map (monthHostOf w) xs)"
proof -
  let ?al = "foldl (storeAdd w fc) [] xs"
  note e = entries_of_groups[OF assms(1), of _ _ fc]
  have inj: "monthHostOf w t1 = monthHostOf w t2"
    if "t1 \<in> set xs" "t2 \<in> set xs" "storeKey w fc t1 = storeKey w fc t2" for t1 t2
    using that assms by (intro storeKey_inj[of w t1 t2 fc]) auto
  show ?thesis
  proof (intro set_eqI iffI)
    fix x assume "x \<in> set (map monthHost (map snd ?al))"
    then obtain k i where ki: "(k, i) \<in> set ?al" and x: "x = monthHost i" by auto
    from groupOf_Some(1)[OF ki[unfolded e]] show "x \<in> set (map (monthHostOf w) xs)"
      using x by auto
  next
    fix x assume "x \<in> set (map (monthHostOf w) xs)"
    then obtain t where t: "t \<in> set xs" and x: "x = monthHostOf w t" by auto
    from groupOf_member[OF t, of w fc] obtain i where
      g: "groupOf w fc (storeKey w fc t) xs = Some i" by blast
    from groupOf_Some(1)[OF g] obtain t' where t': "t' \<in> set xs"
      "storeKey w fc t' = storeKey w fc t" "monthHost i = monthHostOf w t'" by blast
    have "monthHost i = x" using inj[OF t'(1) t t'(2)] t'(3) x by simp
    moreover have "(storeKey w fc t, i) \<in> set ?al" using g e by simp
    ultimately show "x \<in> set (map monthHost (map snd ?al))" by force
  qed
qed

lemma entries_total:
  assumes "\<forall>t \<in> set xs. Collective_findByPk w (transaction.HostCollectiveId t) \<noteq> None"
    and "inj_on collective.slug (set (collectives w))"
    and "\<forall>t \<in> set xs. getMonth w (createdAt t) < 12 \<and> \<bar>getFullYear w (createdAt t)\<bar> \<le> 275760"
    and "i \<in> set (map snd (foldl (storeAdd w fc) [] xs))"
  shows "invoice_summary.totalAmount i =
           sum_list (map amountInHostCurrency (filter (\<lambda>t. monthHostOf w t = monthHost i) xs))"
    and "filter (\<lambda>t. monthHostOf w t = monthHost i) xs \<noteq> []"
proof -
  let ?al = "foldl (storeAdd w fc) [] xs"
  note e = entries_of_groups[OF assms(1), of _ _ fc]
  from assms(4) obtain k where ki: "(k, i) \<in> set ?al" by auto
  then have g: "groupOf w fc k xs = Some i" using e by simp
  from groupOf_Some(1)[OF g] obtain t' where t': "t' \<in> set xs" "storeKey w fc t' = k"
    "monthHost i = monthHostOf w t'" by blast
  have c: "(storeKey w fc t = k) = (monthHostOf w t = monthHost i)" if "t \<in> set xs" for t
  proof
    assume "storeKey w fc t = k"
    then have "storeKey w fc t = storeKey w fc t'" using t'(2) by simp
    then have "monthHostOf w t = monthHostOf w t'"
      using that t'(1) assms(1,2,3) by (intro storeKey_inj[of w t t' fc]) auto
    then show "monthHostOf w t = monthHost i" using t'(3) by simp
  next
    assume "monthHostOf w t = monthHost i"
    then have "monthHostOf w t = monthHostOf w t'" using t'(3) by simp
    then show "storeKey w fc t = k" using storeKey_monthHost[of w t t' fc] t'(2) by simp
  qed
  have f: "filter (\<lambda>t. storeKey w fc t = k) xs = filter (\<lambda>t. monthHostOf w t = monthHost i) xs"
    using c by (intro filter_cong) auto
  show "invoice_summary.totalAmount i =
           sum_list (map amountInHostCurrency (filter (\<lambda>t. monthHostOf w t = monthHost i) xs))"
    using groupOf_Some(3)[OF g] f by simp
  have "t' \<in> set (filter (\<lambda>t. monthHostOf w t = monthHost i) xs)" using t'(1,3) by simp
  then show "filter (\<lambda>t. monthHostOf w t = monthHost i) xs \<noteq> []" by force
qed

lemma less_append_same_length:
  "length a = length b \<Longrightarrow> (a @ r < b @ r') = (a < b \<or> a = b \<and> r < (r' :: char list))"
  by (induction a b rule: list_induct2) auto

lemma foldl_digits:
  "foldl (\<lambda>acc c. acc * 10 + (of_char c - 48)) a cs =
     a * 10 ^ length cs + foldl (\<lambda>acc c. acc * 10 + (of_char c - 48)) (0::nat) cs"
proof (induction cs arbitrary: a)
  case Nil
  then show ?case by simp
next
  case (Cons c cs)
  show ?case
    by (simp add: Cons.IH[of "a * 10 + (of_char c - 48)"] Cons.IH[of "of_char c - 48"]
        algebra_simps)
qed

lemma digitsValue_Cons:
  "digitsValue (c # cs) = (of_char c - 48) * 10 ^ length cs + digitsValue cs"
  using foldl_digits[of "of_char c - 48" cs] by (simp add: digitsValue_def)

lemma digitsValue_append:
  "digitsValue (a @ b) = digitsValue a * 10 ^ length b + digitsValue b"
  using foldl_digits[of "digitsValue a" b] by (simp add: digitsValue_def)

lemma isDigit_code: "isDigit c \<Longrightarrow> 48 \<le> (of_char c :: nat) \<and> (of_char c :: nat) \<le> 57"
  by (auto simp: isDigit_def)

lemma digitsValue_bound: "list_all isDigit cs \<Longrightarrow> digitsValue cs < 10 ^ length cs"
proof (induction cs)
  case Nil
  then show ?case by (simp add: digitsValue_def)
next
  case (Cons c cs)
  then have "isDigit c" by simp
  then have v: "(of_char c :: nat) - 48 \<le> 9" using isDigit_code[of c] by arith
  have b: "digitsValue cs < 10 ^ length cs" using Cons by simp
  have "(of_char c - 48) * 10 ^ length cs + digitsValue cs < 9 * 10 ^ length cs + 10 ^ length cs"
    using v b by (meson add_le_less_mono mult_le_mono1)
  then show ?case by (simp add: digitsValue_Cons)
qed

lemma digits_less:
  assumes "length a = length b" "list_all isDigit a" "list_all isDigit b" "a < b"
  shows "digitsValue a < digitsValue b"
  using assms
proof (induction a b rule: list_induct2)
  case Nil
  then show ?case by simp
next
  case (Cons x xs y ys)
  have bx: "digitsValue xs < 10 ^ length xs" using Cons.prems(1) by (simp add: digitsValue_bound)
  from Cons.prems(3) have "x < y \<or> x = y \<and> xs < ys" by simp
  then show ?case
  proof
    assume "x < y"
    then have "(of_char x :: nat) < of_char y" by (simp add: less_char_def)
    moreover have "48 \<le> (of_char x :: nat)" using Cons.prems(1) isDigit_code[of x] by simp
    ultimately have "(of_char x :: nat) - 48 + 1 \<le> of_char y - 48" by simp
    then have "((of_char x :: nat) - 48 + 1) * 10 ^ length xs \<le> (of_char y - 48) * 10 ^ length xs"
      by (rule mult_le_mono1)
    then show ?thesis using bx Cons.hyps by (simp add: digitsValue_Cons algebra_simps)
  next
    assume "x = y \<and> xs < ys"
    then show ?thesis using Cons by (simp add: digitsValue_Cons)
  qed
qed

lemma slug_order:
  assumes "1000 \<le> y1" "y1 \<le> 9999" "1000 \<le> y2" "y2 \<le> 9999" "m1 \<le> 99" "m2 \<le> 99"
    and "slugOf y2 m2 h f \<le> slugOf y1 m1 h f"
  shows "y2 < y1 \<or> (y2 = y1 \<and> m2 \<le> m1)"
proof -
  let ?A = "digitsOf (nat y1) @ month2digit m1" and ?B = "digitsOf (nat y2) @ month2digit m2"
  let ?r = "CHR ''.'' # h @ CHR ''.'' # f"
  have s1: "slugOf y1 m1 h f = ?A @ ?r" using assms(1,2) by (simp add: slugOf_def year_string)
  have s2: "slugOf y2 m2 h f = ?B @ ?r" using assms(3,4) by (simp add: slugOf_def year_string)
  have l: "length ?B = length ?A"
    using year_string(2)[OF assms(1,2)] year_string(2)[OF assms(3,4)]
      month2digit_length[OF assms(5)] month2digit_length[OF assms(6)] by simp
  have dA: "list_all isDigit ?A" and dB: "list_all isDigit ?B"
    using isDigit_digitsOf month2digit_digits[OF assms(5)] month2digit_digits[OF assms(6)]
    by simp_all
  have vA: "digitsValue ?A = nat y1 * 100 + m1"
    using month2digit_length[OF assms(5)] month2digit_value[OF assms(5)]
    by (simp add: digitsValue_append digitsValue_digitsOf)
  have vB: "digitsValue ?B = nat y2 * 100 + m2"
    using month2digit_length[OF assms(6)] month2digit_value[OF assms(6)]
    by (simp add: digitsValue_append digitsValue_digitsOf)
  have "?B @ ?r < ?A @ ?r \<or> ?B @ ?r = ?A @ ?r"
    using assms(7) unfolding s1 s2 by (simp only: list_le_def)
  then have "?B < ?A \<or> ?B = ?A"
    unfolding less_append_same_length[OF l] by (auto simp only: append_same_eq)
  then have "digitsValue ?B \<le> digitsValue ?A"
    using digits_less[OF l dB dA] by auto
  then have "nat y2 * 100 + m2 \<le> nat y1 * 100 + m1" unfolding vA vB .
  then show ?thesis using assms(1-6) by linarith
qed

lemma entry_slug:
  assumes "\<forall>t \<in> set xs. Collective_findByPk w (transaction.HostCollectiveId t) \<noteq> None"
    and "i \<in> set (map snd (foldl (storeAdd w fc) [] xs))"
  shows "invoice_summary.slug i =
           slugOf (invoice_summary.year i) (invoice_summary.month i)
             (hostSlugOf w (invoice_summary.HostCollectiveId i)) (collective.slug fc)"
proof -
  from assms(2) obtain k where "(k, i) \<in> set (foldl (storeAdd w fc) [] xs)" by auto
  then have g: "groupOf w fc k xs = Some i" using entries_of_groups[OF assms(1)] by simp
  from groupOf_Some(1)[OF g] obtain t where t: "storeKey w fc t = k"
    "monthHost i = monthHostOf w t" by blast
  show ?thesis
    using t groupOf_Some(2)[OF g] by (simp add: storeKey_def monthHost_def monthHostOf_def)
qed

lemma entries_distinct_slug:
  assumes "\<forall>t \<in> set xs. Collective_findByPk w (transaction.HostCollectiveId t) \<noteq> None"
  shows "distinct (map invoice_summary.slug (map snd (foldl (storeAdd w fc) [] xs)))"
proof -
  let ?al = "foldl (storeAdd w fc) [] xs"
  have eq: "map (invoice_summary.slug \<circ> snd) ?al = map fst ?al"
  proof (rule map_cong[OF refl])
    fix e assume "e \<in> set ?al"
    then have "groupOf w fc (fst e) xs = Some (snd e)"
      using entries_of_groups[OF assms, of "fst e" "snd e" fc] by simp
    then show "(invoice_summary.slug \<circ> snd) e = fst e" using groupOf_Some(2) by simp
  qed
  have "distinct (map fst ?al)" using fold_groups[OF assms, of fc] by simp
  then show ?thesis unfolding map_map eq .
qed

lemma allInvoices_groups:
  assumes "Collective_findOne w s = Some fromCollective"
    and "\<not> notAdmin req (collective.id' fromCollective)"
    and "\<forall>t \<in> set (creditsOf w fromCollective).
           Collective_findByPk w (transaction.HostCollectiveId t) \<noteq> None"
    and "mset (completionOrder w (creditsOf w fromCollective)) = mset (creditsOf w fromCollective)"
    and "inj_on collective.slug (set (collectives w))"
    and "\<forall>t \<in> set (creditsOf w fromCollective).
           getMonth w (createdAt t) < 12 \<and> \<bar>getFullYear w (createdAt t)\<bar> \<le> 275760"
  shows "\<exists>invoices. allInvoices w s req = ([TransactionFindAll], Inr invoices)
           \<and> distinct (map monthHost invoices)
           \<and> set (map monthHost invoices) = set (map (monthHostOf w) (creditsOf w fromCollective))
           \<and> (\<forall>i \<in> set invoices.
                 invoice_summary.totalAmount i =
                   sum_list (map amountInHostCurrency
                     (filter (\<lambda>t. monthHostOf w t = monthHost i) (creditsOf w fromCollective)))
                 \<and> filter (\<lambda>t. monthHostOf w t = monthHost i) (creditsOf w fromCollective) \<noteq> [])"
proof -
  let ?cs = "creditsOf w fromCollective"
  let ?xs = "completionOrder w ?cs"
  let ?al = "foldl (storeAdd w fromCollective) [] ?xs"
  let ?invs = "sortBy compareInvoices (map snd ?al)"
  have sx: "set ?xs = set ?cs" using assms(4) by (rule mset_eq_setD)
  have hosts: "\<forall>t \<in> set ?xs. Collective_findByPk w (transaction.HostCollectiveId t) \<noteq> None"
    using assms(3) sx by simp
  have cal: "\<forall>t \<in> set ?xs. getMonth w (createdAt t) < 12 \<and> \<bar>getFullYear w (createdAt t)\<bar> \<le> 275760"
    using assms(6) sx by simp
  have r: "allInvoices w s req = ([TransactionFindAll], Inr ?invs)"
    using assms(1,2) hosts by (rule allInvoices_result)
  have ms: "mset (map monthHost ?invs) = mset (map monthHost (map snd ?al))"
    by (simp only: mset_map mset_sortBy)
  have d: "distinct (map monthHost ?invs)"
    using entries_distinct[OF hosts, of fromCollective] mset_eq_imp_distinct_iff[OF ms] by simp
  have c: "set (map monthHost ?invs) = set (map (monthHostOf w) ?cs)"
  proof -
    have "set (map monthHost ?invs) = set (map monthHost (map snd ?al))"
      using ms by (rule mset_eq_setD)
    also have "\<dots> = set (map (monthHostOf w) ?xs)"
      using hosts assms(5) cal by (rule entries_cover)
    also have "\<dots> = set (map (monthHostOf w) ?cs)" using sx by simp
    finally show ?thesis .
  qed
  have t: "invoice_summary.totalAmount i =
             sum_list (map amountInHostCurrency (filter (\<lambda>t. monthHostOf w t = monthHost i) ?cs))
           \<and> filter (\<lambda>t. monthHostOf w t = monthHost i) ?cs \<noteq> []"
    if "i \<in> set ?invs" for i
  proof -
    have i: "i \<in> set (map snd ?al)" using that by (simp only: set_sortBy)
    note e = entries_total[OF hosts assms(5) cal i]
    have "sum_list (map amountInHostCurrency (filter (\<lambda>t. monthHostOf w t = monthHost i) ?xs)) =
        sum_list (map amountInHostCurrency (filter (\<lambda>t. monthHostOf w t = monthHost i) ?cs))"
      using assms(4) by (rule sum_filter_perm)
    moreover have "set (filter (\<lambda>t. monthHostOf w t = monthHost i) ?xs) =
        set (filter (\<lambda>t. monthHostOf w t = monthHost i) ?cs)" using sx by simp
    then have "filter (\<lambda>t. monthHostOf w t = monthHost i) ?cs \<noteq> []"
      using e(2) by (metis set_empty)
    ultimately show ?thesis using e(1) by simp
  qed
  show ?thesis using r d c t by blast
qed

text \<open>
  Claim C9. The list \<^verbatim>\<open>allInvoices\<close> returns is sorted by slug in descending order of
  strings: every invoice has a slug at least as large as the slug of any invoice after
  it, adjacent ones in particular, and no two slugs are equal. For two invoices of one
  host with years of four digits, the earlier one in the list is the later one in time.
\<close>

theorem allInvoices_sorted_descending:
  assumes "allInvoices w s req = (q, Inr invoices)"
  shows "sorted_wrt (\<lambda>a b. invoice_summary.slug b \<le> invoice_summary.slug a) invoices
         \<and> (\<forall>n. Suc n < length invoices \<longrightarrow>
               invoice_summary.slug (invoices ! Suc n) \<le> invoice_summary.slug (invoices ! n))
         \<and> distinct (map invoice_summary.slug invoices)
         \<and> (\<forall>n m. n < m \<and> m < length invoices
               \<and> invoice_summary.HostCollectiveId (invoices ! n)
                   = invoice_summary.HostCollectiveId (invoices ! m)
               \<and> 1000 \<le> invoice_summary.year (invoices ! n)
               \<and> invoice_summary.year (invoices ! n) \<le> 9999
               \<and> 1000 \<le> invoice_summary.year (invoices ! m)
               \<and> invoice_summary.year (invoices ! m) \<le> 9999
               \<and> invoice_summary.month (invoices ! n) \<le> 12
               \<and> invoice_summary.month (invoices ! m) \<le> 12
             \<longrightarrow> invoice_summary.year (invoices ! m) < invoice_summary.year (invoices ! n)
                 \<or> (invoice_summary.year (invoices ! m) = invoice_summary.year (invoices ! n)
                    \<and> invoice_summary.month (invoices ! m) < invoice_summary.month (invoices ! n)))"
proof -
  from allInvoices_Inr[OF assms] obtain fc where
    hosts: "\<forall>t \<in> set (completionOrder w (creditsOf w fc)).
              Collective_findByPk w (transaction.HostCollectiveId t) \<noteq> None"
    and invs: "invoices = sortBy compareInvoices
        (map snd (foldl (storeAdd w fc) [] (completionOrder w (creditsOf w fc))))"
    by blast
  let ?al = "foldl (storeAdd w fc) [] (completionOrder w (creditsOf w fc))"
  have s: "sorted_wrt (\<lambda>a b. invoice_summary.slug b \<le> invoice_summary.slug a) invoices"
    unfolding invs by (rule sorted_sortBy)
  have adj: "invoice_summary.slug (invoices ! Suc n) \<le> invoice_summary.slug (invoices ! n)"
    if "Suc n < length invoices" for n
    using s that by (simp add: sorted_wrt_iff_nth_less)
  have ms: "mset (map invoice_summary.slug invoices) = mset (map invoice_summary.slug (map snd ?al))"
    unfolding invs by (simp only: mset_map mset_sortBy)
  have d: "distinct (map invoice_summary.slug invoices)"
    using entries_distinct_slug[OF hosts, of fc] mset_eq_imp_distinct_iff[OF ms] by simp
  have chrono: "invoice_summary.year (invoices ! m) < invoice_summary.year (invoices ! n)
                 \<or> (invoice_summary.year (invoices ! m) = invoice_summary.year (invoices ! n)
                    \<and> invoice_summary.month (invoices ! m) < invoice_summary.month (invoices ! n))"
    if nm: "n < m" "m < length invoices"
      and h: "invoice_summary.HostCollectiveId (invoices ! n)
                   = invoice_summary.HostCollectiveId (invoices ! m)"
      and y: "1000 \<le> invoice_summary.year (invoices ! n)"
        "invoice_summary.year (invoices ! n) \<le> 9999"
        "1000 \<le> invoice_summary.year (invoices ! m)"
        "invoice_summary.year (invoices ! m) \<le> 9999"
      and mo: "invoice_summary.month (invoices ! n) \<le> 12"
        "invoice_summary.month (invoices ! m) \<le> 12"
    for n m
  proof -
    let ?a = "invoices ! n" and ?b = "invoices ! m"
    have ina: "?a \<in> set (map snd ?al)" and inb: "?b \<in> set (map snd ?al)"
      using nm set_sortBy[of compareInvoices "map snd ?al"] unfolding invs[symmetric]
      by (metis nth_mem order_less_trans)+
    have sa: "invoice_summary.slug ?a = slugOf (invoice_summary.year ?a) (invoice_summary.month ?a)
        (hostSlugOf w (invoice_summary.HostCollectiveId ?a)) (collective.slug fc)"
      using hosts ina by (rule entry_slug)
    have sb: "invoice_summary.slug ?b = slugOf (invoice_summary.year ?b) (invoice_summary.month ?b)
        (hostSlugOf w (invoice_summary.HostCollectiveId ?a)) (collective.slug fc)"
      using entry_slug[OF hosts inb] h by simp
    have le: "invoice_summary.slug ?b \<le> invoice_summary.slug ?a"
      using s nm by (simp add: sorted_wrt_iff_nth_less)
    have ne: "invoice_summary.slug ?b \<noteq> invoice_summary.slug ?a"
      using d nm by (simp add: distinct_conv_nth)
    have ma: "invoice_summary.month ?a \<le> 99" and mb: "invoice_summary.month ?b \<le> 99"
      using mo by simp_all
    from slug_order[OF y(1,2,3,4) ma mb le[unfolded sa sb]]
    have o: "invoice_summary.year ?b < invoice_summary.year ?a
       \<or> (invoice_summary.year ?b = invoice_summary.year ?a
           \<and> invoice_summary.month ?b \<le> invoice_summary.month ?a)" .
    have "\<not> (invoice_summary.year ?b = invoice_summary.year ?a
           \<and> invoice_summary.month ?b = invoice_summary.month ?a)"
      using ne sa sb by auto
    then show ?thesis using o by linarith
  qed
  show ?thesis using s adj d chrono by blast
qed

lemma demo_credits: "creditsOf (demoWorld demoDonations) demoUser = demoDonations"
  by (simp add: creditsOf_def Transaction_findAll_def demoWorld_def demoDonations_def
      demoCredit_def demoUser_def fromOrVirtualCard_def)

lemma demo_order: "completionOrder (demoWorld ts) = rev"
  by (simp add: demoWorld_def)

lemma demo_calendar:
  "getFullYear (demoWorld ts) = (\<lambda>t. t div 10000)"
  "getMonth (demoWorld ts) = (\<lambda>t. nat ((t div 100) mod 100) - 1)"
  by (simp_all add: demoWorld_def)

lemma demo_keys:
  "slugOf 2017 11 ''brusselstogether-host'' ''xdamman'' = ''201711.brusselstogether-host.xdamman''"
  "slugOf 2017 10 ''brusselstogether-host'' ''xdamman'' = ''201710.brusselstogether-host.xdamman''"
  "slugOf 2017 9 ''brusselstogether-host'' ''xdamman'' = ''201709.brusselstogether-host.xdamman''"
  by (simp_all add: slugOf_def month2digit_def n2s)

lemma demo_storeAdd:
  "storeAdd (demoWorld ts) demoUser al (demoCredit n d a c) =
     AList.update
       (slugOf (d div 10000) (nat ((d div 100) mod 100) - 1 + 1) ''brusselstogether-host'' ''xdamman'')
       \<lparr> invoice_summary.HostCollectiveId = 2, invoice_summary.FromCollectiveId = 3,
         invoice_summary.slug =
           slugOf (d div 10000) (nat ((d div 100) mod 100) - 1 + 1) ''brusselstogether-host'' ''xdamman'',
         invoice_summary.year = d div 10000,
         invoice_summary.month = nat ((d div 100) mod 100) - 1 + 1,
         invoice_summary.totalAmount =
           (case map_of al
              (slugOf (d div 10000) (nat ((d div 100) mod 100) - 1 + 1) ''brusselstogether-host'' ''xdamman'') of
              Some i \<Rightarrow> invoice_summary.totalAmount i + a
            | None \<Rightarrow> a),
         invoice_summary.currency = c \<rparr> al"
proof -
  have h: "transaction.HostCollectiveId (demoCredit n d a c) = 2" by (simp add: demoCredit_def)
  have f: "Collective_findByPk (demoWorld ts) (transaction.HostCollectiveId (demoCredit n d a c)) \<noteq> None"
    unfolding h by (simp add: demo_lookup)
  have a: "amountInHostCurrency (demoCredit n d a c) = a" by (simp add: demoCredit_def)
  show ?thesis
    unfolding storeAdd_found[OF f] storeKey_def hostSlugOf_def h a demo_lookup demo_calendar
    by (simp add: demoCredit_def demoUser_def demoHost_def)
qed

lemma demo_entries:
  "foldl (storeAdd (demoWorld demoDonations) demoUser) [] (rev demoDonations) =
     [(''201711.brusselstogether-host.xdamman'',
         demoInvoice 11 ''201711.brusselstogether-host.xdamman'' 1000),
      (''201710.brusselstogether-host.xdamman'',
         demoInvoice 10 ''201710.brusselstogether-host.xdamman'' 1500),
      (''201709.brusselstogether-host.xdamman'',
         demoInvoice 9 ''201709.brusselstogether-host.xdamman'' 1000)]"
  by (simp add: demoDonations_def demo_storeAdd demo_keys demoInvoice_def)

lemma demo_sorted: "sortBy compareInvoices demoInvoices = demoInvoices"
  by (simp add: sortBy_def demoInvoices_def compareInvoices_def demoInvoice_def)

lemma demo_hosts:
  "\<forall>t \<in> set demoDonations.
     Collective_findByPk (demoWorld demoDonations) (transaction.HostCollectiveId t) \<noteq> None"
  by (simp add: demoDonations_def demoCredit_def demo_lookup)

lemma demo_allInvoices:
  "allInvoices (demoWorld demoDonations) ''xdamman'' demoAdmin =
     ([TransactionFindAll], Inr demoInvoices)"
proof -
  have h: "\<forall>t \<in> set (completionOrder (demoWorld demoDonations)
               (creditsOf (demoWorld demoDonations) demoUser)).
             Collective_findByPk (demoWorld demoDonations) (transaction.HostCollectiveId t) \<noteq> None"
    unfolding demo_credits demo_order using demo_hosts by simp
  show ?thesis
    unfolding allInvoices_result[OF demo_lookup(1) demo_admin(1) h] demo_credits demo_order
      demo_entries
    using demo_sorted by (simp add: demoInvoices_def)
qed

theorem allInvoices_sorted_descending_witness:
  "allInvoices (demoWorld demoDonations) ''xdamman'' demoAdmin =
     ([TransactionFindAll], Inr demoInvoices)
   \<and> sorted_wrt (\<lambda>a b. invoice_summary.slug b \<le> invoice_summary.slug a) demoInvoices
   \<and> distinct (map invoice_summary.slug demoInvoices)
   \<and> map invoice_summary.slug demoInvoices =
       [''201711.brusselstogether-host.xdamman'', ''201710.brusselstogether-host.xdamman'',
        ''201709.brusselstogether-host.xdamman'']"
proof -
  have "map invoice_summary.slug demoInvoices =
       [''201711.brusselstogether-host.xdamman'', ''201710.brusselstogether-host.xdamman'',
        ''201709.brusselstogether-host.xdamman'']"
    by (simp add: demoInvoices_def demoInvoice_def)
  then show ?thesis
    using allInvoices_sorted_descending[OF demo_allInvoices] demo_allInvoices by blast
qed

subsection \<open>One invoice for each month and host\<close>

lemma storeAdd_host:
  assumes "Collective_findByPk w (transaction.HostCollectiveId t) = Some h"
  shows "storeAdd w fc al t =
     AList.update
       (slugOf (getFullYear w (createdAt t)) (getMonth w (createdAt t) + 1)
          (collective.slug h) (collective.slug fc))
       \<lparr> invoice_summary.HostCollectiveId = transaction.HostCollectiveId t,
         invoice_summary.FromCollectiveId = collective.id' fc,
         invoice_summary.slug =
           slugOf (getFullYear w (createdAt t)) (getMonth w (createdAt t) + 1)
             (collective.slug h) (collective.slug fc),
         invoice_summary.year = getFullYear w (createdAt t),
         invoice_summary.month = getMonth w (createdAt t) + 1,
         invoice_summary.totalAmount =
           (case map_of al
              (slugOf (getFullYear w (createdAt t)) (getMonth w (createdAt t) + 1)
                 (collective.slug h) (collective.slug fc)) of
              Some i \<Rightarrow> invoice_summary.totalAmount i + amountInHostCurrency t
            | None \<Rightarrow> amountInHostCurrency t),
         invoice_summary.currency = hostCurrency t \<rparr> al"
proof -
  have f: "Collective_findByPk w (transaction.HostCollectiveId t) \<noteq> None" using assms by simp
  show ?thesis unfolding storeAdd_found[OF f] storeKey_def hostSlugOf_def assms by simp
qed

lemma twin_lookup:
  "Collective_findOne demoTwinWorld ''xdamman'' = Some demoUser"
  "Collective_findByPk demoTwinWorld 2 = Some demoHost"
  "Collective_findByPk demoTwinWorld 4 = Some demoTwin"
  by (simp_all add: Collective_findOne_def Collective_findByPk_def demoTwinWorld_def
      demoWorld_def demoUser_def demoHost_def demoTwin_def)

lemma twin_world:
  "getFullYear demoTwinWorld = (\<lambda>t. t div 10000)"
  "getMonth demoTwinWorld = (\<lambda>t. nat ((t div 100) mod 100) - 1)"
  "completionOrder demoTwinWorld = rev"
  "world.transactions demoTwinWorld = demoTwinGifts"
  by (simp_all add: demoTwinWorld_def demoWorld_def)

lemma twin_credits: "creditsOf demoTwinWorld demoUser = demoTwinGifts"
  by (simp add: creditsOf_def Transaction_findAll_def twin_world demoTwinGifts_def
      demoCredit_def demoUser_def fromOrVirtualCard_def)

lemma twin_entries:
  "foldl (storeAdd demoTwinWorld demoUser) [] (rev demoTwinGifts) =
     [(''201710.brusselstogether-host.xdamman'',
       demoInvoice 10 ''201710.brusselstogether-host.xdamman'' 1700)]"
proof -
  let ?a = "demoCredit 2 20171005 1000 ''EUR''"
  let ?b = "(demoCredit 3 20171025 700 ''EUR'') \<lparr> transaction.HostCollectiveId := 4 \<rparr>"
  have ha: "Collective_findByPk demoTwinWorld (transaction.HostCollectiveId ?a) = Some demoHost"
    by (simp add: demoCredit_def twin_lookup)
  have hb: "Collective_findByPk demoTwinWorld (transaction.HostCollectiveId ?b) = Some demoTwin"
    by (simp add: demoCredit_def twin_lookup)
  have k: "slugOf 2017 10 ''brusselstogether-host'' ''xdamman'' =
      ''201710.brusselstogether-host.xdamman''"
    by (rule demo_keys(2))
  have sb: "storeAdd demoTwinWorld demoUser [] ?b =
      [(''201710.brusselstogether-host.xdamman'',
        \<lparr> invoice_summary.HostCollectiveId = 4, invoice_summary.FromCollectiveId = 3,
          invoice_summary.slug = ''201710.brusselstogether-host.xdamman'',
          invoice_summary.year = 2017, invoice_summary.month = 10,
          invoice_summary.totalAmount = 700, invoice_summary.currency = ''EUR'' \<rparr>)]"
    unfolding storeAdd_host[OF hb] twin_world
    by (simp add: demoCredit_def demoUser_def demoTwin_def k)
  have sa: "storeAdd demoTwinWorld demoUser
      [(''201710.brusselstogether-host.xdamman'',
        \<lparr> invoice_summary.HostCollectiveId = 4, invoice_summary.FromCollectiveId = 3,
          invoice_summary.slug = ''201710.brusselstogether-host.xdamman'',
          invoice_summary.year = 2017, invoice_summary.month = 10,
          invoice_summary.totalAmount = 700, invoice_summary.currency = ''EUR'' \<rparr>)] ?a =
      [(''201710.brusselstogether-host.xdamman'',
        demoInvoice 10 ''201710.brusselstogether-host.xdamman'' 1700)]"
    unfolding storeAdd_host[OF ha] twin_world
    by (simp add: demoCredit_def demoUser_def demoHost_def demoInvoice_def k)
  show ?thesis by (simp add: demoTwinGifts_def sb sa)
qed

lemma twin_allInvoices:
  "allInvoices demoTwinWorld ''xdamman'' demoAdmin =
     ([TransactionFindAll],
      Inr [demoInvoice 10 ''201710.brusselstogether-host.xdamman'' 1700])"
proof -
  have h: "\<forall>t \<in> set (completionOrder demoTwinWorld (creditsOf demoTwinWorld demoUser)).
             Collective_findByPk demoTwinWorld (transaction.HostCollectiveId t) \<noteq> None"
    unfolding twin_credits twin_world
    by (simp add: demoTwinGifts_def demoCredit_def twin_lookup)
  show ?thesis
    unfolding allInvoices_result[OF twin_lookup(1) demo_admin(1) h] twin_credits twin_world
      twin_entries
    by (simp add: sortBy_def)
qed

text \<open>
  Claim C1 as stated fails. The loop files a transaction under the slug built from the
  slug of its host, not under the id of the host: in a store where the hosts 2 and 4
  share a slug, the credits of October 2017 to both, 1000 and 700, come back as one
  invoice of 1700, for the two groups (2017, 10, 2) and (2017, 10, 4). And a caller who is
  no admin of the payer gets no invoice, whatever the credits are.
\<close>

theorem allInvoices_shared_slug_merges_hosts:
  "allInvoices demoTwinWorld ''xdamman'' demoAdmin =
     ([TransactionFindAll],
      Inr [\<lparr> invoice_summary.HostCollectiveId = 2, invoice_summary.FromCollectiveId = 3,
             invoice_summary.slug = ''201710.brusselstogether-host.xdamman'',
             invoice_summary.year = 2017, invoice_summary.month = 10,
             invoice_summary.totalAmount = 1700, invoice_summary.currency = ''EUR'' \<rparr>])
   \<and> map (\<lambda>t. (getFullYear demoTwinWorld (createdAt t),
                 getMonth demoTwinWorld (createdAt t) + 1,
                 transaction.HostCollectiveId t, amountInHostCurrency t))
         (filter (\<lambda>t. type' t = CREDIT
                      \<and> (transaction.FromCollectiveId t = 3
                           \<and> UsingVirtualCardFromCollectiveId t = None
                          \<or> UsingVirtualCardFromCollectiveId t = Some 3))
            (world.transactions demoTwinWorld))
       = [(2017, 10, 2, 1000), (2017, 10, 4, 700)]
   \<and> allInvoices (demoWorld demoDonations) ''xdamman'' \<lparr> remoteUser = None \<rparr> =
       ([], Inl (Unauthorized ''You don't have permission to access invoices for this user''))"
proof -
  have "allInvoices (demoWorld demoDonations) ''xdamman'' \<lparr> remoteUser = None \<rparr> =
       ([], Inl (Unauthorized ''You don't have permission to access invoices for this user''))"
    by (simp add: allInvoices_def demo_lookup demo_admin)
  moreover have "map (\<lambda>t. (getFullYear demoTwinWorld (createdAt t),
                 getMonth demoTwinWorld (createdAt t) + 1,
                 transaction.HostCollectiveId t, amountInHostCurrency t))
         (filter (\<lambda>t. type' t = CREDIT
                      \<and> (transaction.FromCollectiveId t = 3
                           \<and> UsingVirtualCardFromCollectiveId t = None
                          \<or> UsingVirtualCardFromCollectiveId t = Some 3))
            (world.transactions demoTwinWorld))
       = [(2017, 10, 2, 1000), (2017, 10, 4, 700)]"
    unfolding twin_world by (simp add: demoTwinGifts_def demoCredit_def)
  ultimately show ?thesis using twin_allInvoices by (simp add: demoInvoice_def)
qed

text \<open>
  Claim C1, amended. Let the payer resolve, the caller be an admin of the payer, the
  slugs of the collectives of the store be unique, and every fetched credit have its
  host in the store; the fetched credits are the transactions of type CREDIT with
  \<^verbatim>\<open>FromCollectiveId\<close> the payer and no virtual card, or with a virtual card of the payer.
  Then, for a calendar that gives a month index below 12 and a year within the range of
  dates, and for host lookups that complete in any order, \<^verbatim>\<open>allInvoices\<close> returns a list
  with exactly one invoice for each (year, month, HostCollectiveId) that occurs among
  the fetched credits and none for any other; the total of each invoice is the sum of
  \<^verbatim>\<open>amountInHostCurrency\<close> over the credits of its group, which is never empty. Nothing is
  said here of a store in which the host of a fetched credit is missing.
\<close>

theorem allInvoices_one_invoice_per_month_and_host:
  assumes "Collective_findOne w s = Some fromCollective"
    and "\<not> notAdmin req (collective.id' fromCollective)"
    and "credits =
           filter (\<lambda>t. type' t = CREDIT
                       \<and> (transaction.FromCollectiveId t = collective.id' fromCollective
                            \<and> UsingVirtualCardFromCollectiveId t = None
                           \<or> UsingVirtualCardFromCollectiveId t = Some (collective.id' fromCollective)))
             (world.transactions w)"
    and "\<forall>t \<in> set credits. Collective_findByPk w (transaction.HostCollectiveId t) \<noteq> None"
    and "inj_on collective.slug (set (collectives w))"
    and "mset (completionOrder w credits) = mset credits"
    and "\<forall>t \<in> set credits.
           getMonth w (createdAt t) < 12 \<and> \<bar>getFullYear w (createdAt t)\<bar> \<le> 275760"
  shows "\<exists>invoices. allInvoices w s req = ([TransactionFindAll], Inr invoices)
           \<and> distinct (map (\<lambda>i. (invoice_summary.year i, invoice_summary.month i,
                                   invoice_summary.HostCollectiveId i)) invoices)
           \<and> set (map (\<lambda>i. (invoice_summary.year i, invoice_summary.month i,
                              invoice_summary.HostCollectiveId i)) invoices)
               = set (map (\<lambda>t. (getFullYear w (createdAt t), getMonth w (createdAt t) + 1,
                                 transaction.HostCollectiveId t)) credits)
           \<and> (\<forall>i \<in> set invoices.
                 invoice_summary.totalAmount i =
                   sum_list (map amountInHostCurrency
                     (filter (\<lambda>t. (getFullYear w (createdAt t), getMonth w (createdAt t) + 1,
                                    transaction.HostCollectiveId t)
                                  = (invoice_summary.year i, invoice_summary.month i,
                                     invoice_summary.HostCollectiveId i)) credits))
                 \<and> filter (\<lambda>t. (getFullYear w (createdAt t), getMonth w (createdAt t) + 1,
                                  transaction.HostCollectiveId t)
                                = (invoice_summary.year i, invoice_summary.month i,
                                   invoice_summary.HostCollectiveId i)) credits \<noteq> [])"
proof -
  have c: "creditsOf w fromCollective = credits"
    unfolding assms(3) by (simp add: creditsOf_def Transaction_findAll_def fromOrVirtualCard_def)
  have m: "monthHost = (\<lambda>i. (invoice_summary.year i, invoice_summary.month i,
                              invoice_summary.HostCollectiveId i))"
    by (rule ext) (simp add: monthHost_def)
  have n: "monthHostOf w = (\<lambda>t. (getFullYear w (createdAt t), getMonth w (createdAt t) + 1,
                                  transaction.HostCollectiveId t))"
    by (rule ext) (simp add: monthHostOf_def)
  have o: "(\<lambda>t. monthHostOf w t = monthHost i) =
      (\<lambda>t. (getFullYear w (createdAt t), getMonth w (createdAt t) + 1,
             transaction.HostCollectiveId t)
           = (invoice_summary.year i, invoice_summary.month i,
              invoice_summary.HostCollectiveId i))" for i
    by (rule ext) (simp only: monthHostOf_def monthHost_def)
  note g = allInvoices_groups[OF assms(1,2) assms(4)[folded c] assms(6)[folded c] assms(5)
      assms(7)[folded c]]
  show ?thesis using g unfolding c o unfolding m n .
qed

lemma ledger_credits:
  "filter (\<lambda>t. type' t = CREDIT
              \<and> (transaction.FromCollectiveId t = collective.id' demoUser
                   \<and> UsingVirtualCardFromCollectiveId t = None
                  \<or> UsingVirtualCardFromCollectiveId t = Some (collective.id' demoUser)))
     (world.transactions (demoWorld demoLedger)) = demoLedgerCredits"
  by (simp add: demoWorld_def demoLedger_def demoLedgerCredits_def demoDonations_def
      demoCredit_def demoDebit_def demoUser_def)

lemma ledger_creditsOf: "creditsOf (demoWorld demoLedger) demoUser = demoLedgerCredits"
  unfolding ledger_credits[symmetric]
  by (simp add: creditsOf_def Transaction_findAll_def fromOrVirtualCard_def)

lemma ledger_hosts:
  "\<forall>t \<in> set demoLedgerCredits.
     Collective_findByPk (demoWorld demoLedger) (transaction.HostCollectiveId t) \<noteq> None"
  by (simp add: demoLedgerCredits_def demoDonations_def demoCredit_def demo_lookup)

lemma ledger_entries:
  "foldl (storeAdd (demoWorld demoLedger) demoUser) [] (rev demoLedgerCredits) =
     [(''201711.brusselstogether-host.xdamman'',
         demoInvoice 11 ''201711.brusselstogether-host.xdamman'' 1200),
      (''201710.brusselstogether-host.xdamman'',
         demoInvoice 10 ''201710.brusselstogether-host.xdamman'' 1500),
      (''201709.brusselstogether-host.xdamman'',
         demoInvoice 9 ''201709.brusselstogether-host.xdamman'' 1000)]"
proof -
  let ?v = "(demoCredit 10 20171110 200 ''EUR'')
        \<lparr> transaction.FromCollectiveId := 5, UsingVirtualCardFromCollectiveId := Some 3 \<rparr>"
  have hv: "Collective_findByPk (demoWorld demoLedger) (transaction.HostCollectiveId ?v) =
      Some demoHost"
    by (simp add: demoCredit_def demo_lookup)
  have sv: "storeAdd (demoWorld demoLedger) demoUser [] ?v =
      [(''201711.brusselstogether-host.xdamman'',
        demoInvoice 11 ''201711.brusselstogether-host.xdamman'' 200)]"
    unfolding storeAdd_host[OF hv] demo_calendar
    by (simp add: demoCredit_def demoUser_def demoHost_def demoInvoice_def demo_keys)
  show ?thesis
    by (simp add: demoLedgerCredits_def demoDonations_def sv demo_storeAdd demo_keys
        demoInvoice_def)
qed

lemma ledger_allInvoices:
  "allInvoices (demoWorld demoLedger) ''xdamman'' demoAdmin =
     ([TransactionFindAll], Inr demoLedgerInvoices)"
proof -
  have h: "\<forall>t \<in> set (completionOrder (demoWorld demoLedger)
               (creditsOf (demoWorld demoLedger) demoUser)).
             Collective_findByPk (demoWorld demoLedger) (transaction.HostCollectiveId t) \<noteq> None"
    unfolding ledger_creditsOf demo_order using ledger_hosts by simp
  have s: "sortBy compareInvoices demoLedgerInvoices = demoLedgerInvoices"
    by (simp add: sortBy_def demoLedgerInvoices_def compareInvoices_def demoInvoice_def)
  show ?thesis
    unfolding allInvoices_result[OF demo_lookup(1) demo_admin(1) h] ledger_creditsOf demo_order
      ledger_entries
    using s by (simp add: demoLedgerInvoices_def)
qed

theorem allInvoices_one_invoice_per_month_and_host_witness:
  "allInvoices (demoWorld demoLedger) ''xdamman'' demoAdmin =
     ([TransactionFindAll], Inr demoLedgerInvoices)
   \<and> length (world.transactions (demoWorld demoLedger)) = 9
   \<and> length demoLedgerCredits = 6
   \<and> distinct (map (\<lambda>i. (invoice_summary.year i, invoice_summary.month i,
                           invoice_summary.HostCollectiveId i)) demoLedgerInvoices)
   \<and> set (map (\<lambda>i. (invoice_summary.year i, invoice_summary.month i,
                      invoice_summary.HostCollectiveId i)) demoLedgerInvoices)
       = set (map (\<lambda>t. (getFullYear (demoWorld demoLedger) (createdAt t),
                         getMonth (demoWorld demoLedger) (createdAt t) + 1,
                         transaction.HostCollectiveId t)) demoLedgerCredits)
   \<and> map (\<lambda>i. (invoice_summary.year i, invoice_summary.month i,
                 invoice_summary.HostCollectiveId i, invoice_summary.totalAmount i))
         demoLedgerInvoices
       = [(2017, 11, 2, 1200), (2017, 10, 2, 1500), (2017, 9, 2, 1000)]
   \<and> invoice_summary.totalAmount (demoInvoice 11 ''201711.brusselstogether-host.xdamman'' 1200) =
       sum_list (map amountInHostCurrency
         (filter (\<lambda>t. (getFullYear (demoWorld demoLedger) (createdAt t),
                        getMonth (demoWorld demoLedger) (createdAt t) + 1,
                        transaction.HostCollectiveId t)
                      = (2017, 11, 2)) demoLedgerCredits))"
proof -
  let ?w = "demoWorld demoLedger"
  have p: "mset (completionOrder ?w demoLedgerCredits) = mset demoLedgerCredits"
    by (simp add: demo_order)
  have u: "inj_on collective.slug (set (collectives ?w))"
    by (simp add: demoWorld_def demoUser_def demoHost_def)
  have c: "\<forall>t \<in> set demoLedgerCredits.
      getMonth ?w (createdAt t) < 12 \<and> \<bar>getFullYear ?w (createdAt t)\<bar> \<le> 275760"
    unfolding demo_calendar
    by (simp add: demoLedgerCredits_def demoDonations_def demoCredit_def)
  from allInvoices_one_invoice_per_month_and_host
         [OF demo_lookup(1) demo_admin(1) ledger_credits[symmetric] ledger_hosts u p c]
  obtain invoices where r: "allInvoices ?w ''xdamman'' demoAdmin = ([TransactionFindAll], Inr invoices)"
    and d: "distinct (map (\<lambda>i. (invoice_summary.year i, invoice_summary.month i,
                           invoice_summary.HostCollectiveId i)) invoices)"
    and s: "set (map (\<lambda>i. (invoice_summary.year i, invoice_summary.month i,
                      invoice_summary.HostCollectiveId i)) invoices)
       = set (map (\<lambda>t. (getFullYear ?w (createdAt t), getMonth ?w (createdAt t) + 1,
                         transaction.HostCollectiveId t)) demoLedgerCredits)"
    and t: "\<forall>i \<in> set invoices.
                 invoice_summary.totalAmount i =
                   sum_list (map amountInHostCurrency
                     (filter (\<lambda>t. (getFullYear ?w (createdAt t), getMonth ?w (createdAt t) + 1,
                                    transaction.HostCollectiveId t)
                                  = (invoice_summary.year i, invoice_summary.month i,
                                     invoice_summary.HostCollectiveId i)) demoLedgerCredits))
                 \<and> filter (\<lambda>t. (getFullYear ?w (createdAt t), getMonth ?w (createdAt t) + 1,
                                  transaction.HostCollectiveId t)
                                = (invoice_summary.year i, invoice_summary.month i,
                                   invoice_summary.HostCollectiveId i)) demoLedgerCredits \<noteq> []"
    by blast
  have e: "invoices = demoLedgerInvoices" using r ledger_allInvoices by simp
  have m: "demoInvoice 11 ''201711.brusselstogether-host.xdamman'' 1200 \<in> set demoLedgerInvoices"
    by (simp add: demoLedgerInvoices_def)
  have f: "invoice_summary.year (demoInvoice 11 ''201711.brusselstogether-host.xdamman'' 1200) = 2017"
    "invoice_summary.month (demoInvoice 11 ''201711.brusselstogether-host.xdamman'' 1200) = 11"
    "invoice_summary.HostCollectiveId (demoInvoice 11 ''201711.brusselstogether-host.xdamman'' 1200) = 2"
    by (simp_all add: demoInvoice_def)
  have t11: "invoice_summary.totalAmount (demoInvoice 11 ''201711.brusselstogether-host.xdamman'' 1200) =
       sum_list (map amountInHostCurrency
         (filter (\<lambda>t. (getFullYear ?w (createdAt t), getMonth ?w (createdAt t) + 1,
                        transaction.HostCollectiveId t)
                      = (2017, 11, 2)) demoLedgerCredits))"
    using t[unfolded e, rule_format, OF m] unfolding f by blast
  have v: "map (\<lambda>i. (invoice_summary.year i, invoice_summary.month i,
                 invoice_summary.HostCollectiveId i, invoice_summary.totalAmount i))
         demoLedgerInvoices
       = [(2017, 11, 2, 1200), (2017, 10, 2, 1500), (2017, 9, 2, 1000)]"
    by (simp add: demoLedgerInvoices_def demoInvoice_def)
  have l: "length (world.transactions ?w) = 9" "length demoLedgerCredits = 6"
    by (simp_all add: demoWorld_def demoLedger_def demoLedgerCredits_def demoDonations_def)
  show ?thesis
    using ledger_allInvoices l d[unfolded e] s[unfolded e] v t11 by blast
qed

end
